theory Spec2Isabelle
  imports Main
begin

section \<open>The meeting recorder: data model\<close>

text \<open>
  The program (\<^verbatim>\<open>src/spawner/src/index.ts\<close>) is one class, \<^verbatim>\<open>GoogleMeetRecorder\<close>,
  whose methods drive a browser and a screen recorder, and a \<^verbatim>\<open>main\<close> function.
  The browser, the page, the recorder, the file system and the console are collaborators:
  every call the program makes to them is an \<^emph>\<open>action\<close>, the collaborator's answer is an
  \<^emph>\<open>outcome\<close>, and an execution is the list of events it produced, in order.
\<close>

type_synonym handle = nat
  \<comment> \<open>an \<^verbatim>\<open>ElementHandle\<close> of the page\<close>

text \<open>The constant \<^verbatim>\<open>RecordingConfig\<close> (lines 6-22).\<close>

record recording_config =
  followNewTab :: bool
  fps :: nat
  ffmpeg_Path :: "string option"
  videoFrame :: "nat \<times> nat"
  videoCrf :: nat
  videoCodec :: string
  videoPreset :: string
  videoBitrate :: nat
  autopad_color :: string
  aspectRatio :: string

definition RecordingConfig :: recording_config where
  "RecordingConfig =
     \<lparr> followNewTab = True, fps = 25, ffmpeg_Path = None, videoFrame = (1920, 1080),
       videoCrf = 18, videoCodec = ''libx264'', videoPreset = ''ultrafast'',
       videoBitrate = 1000, autopad_color = ''black'', aspectRatio = ''16:9'' \<rparr>"

text \<open>The fields of the class (lines 25-27).\<close>

record GoogleMeetRecorder =
  meetUrl :: string
  recordingDuration :: int
  videoOutputPath :: string

text \<open>
  Two kinds of exception reach the program: the \<^verbatim>\<open>new Error(msg)\<close> objects it constructs
  itself (lines 52 and 60), and whatever a collaborator raises.
\<close>

datatype error =
    Error string
  | Raised string

datatype action =
    Launch "string list"          \<comment> \<open>\<^verbatim>\<open>puppeteer.launch({headless: false, args})\<close>\<close>
  | NewPage                       \<comment> \<open>\<^verbatim>\<open>browser.newPage()\<close>\<close>
  | EvaluateBypass                \<comment> \<open>\<^verbatim>\<open>page.evaluate\<close> of lines 83-92\<close>
  | SetExtraHTTPHeaders string string
  | NewRecorder recording_config  \<comment> \<open>\<^verbatim>\<open>require\<close> and \<^verbatim>\<open>new PuppeteerScreenRecorder\<close>\<close>
  | Goto string nat               \<comment> \<open>\<^verbatim>\<open>page.goto(url, {waitUntil: 'networkidle0', timeout})\<close>\<close>
  | EvaluateOverride              \<comment> \<open>\<^verbatim>\<open>page.evaluate\<close> of lines 112-122\<close>
  | SetViewport nat nat
  | XPath string                  \<comment> \<open>\<^verbatim>\<open>page.$x(xpath)\<close>\<close>
  | Click handle nat              \<comment> \<open>\<^verbatim>\<open>element.click({clickCount})\<close>\<close>
  | TypeText handle string        \<comment> \<open>\<^verbatim>\<open>element.type(text)\<close>\<close>
  | RecorderStart string
  | WaitForTimeout int
  | RecorderStop
  | BrowserClose
  | MkdirSync string              \<comment> \<open>\<^verbatim>\<open>fs.mkdirSync(dir, {recursive: true})\<close>\<close>

datatype outcome =
    Returned
  | Matched "handle list"         \<comment> \<open>the array \<^verbatim>\<open>page.$x\<close> resolved with, in document order\<close>
  | Threw string

datatype message =
    RecordingStarted string       \<comment> \<open>line 146\<close>
  | StoppingRecording             \<comment> \<open>line 151\<close>
  | RecordingSaved                \<comment> \<open>line 153\<close>
  | ErrorDuringRecording error    \<comment> \<open>line 156, \<^verbatim>\<open>console.error\<close>\<close>
  | MeetRecordingFailed error     \<comment> \<open>line 174, \<^verbatim>\<open>console.error\<close>\<close>
  | Uncaught error                \<comment> \<open>line 180, \<^verbatim>\<open>main().catch(console.error)\<close>\<close>

datatype event =
    Call action outcome
  | Console message

text \<open>
  The collaborators are deterministic but otherwise arbitrary: what a call answers may
  depend on everything that happened before it.
\<close>

record env =
  respond :: "event list \<Rightarrow> action \<Rightarrow> string option"
    \<comment> \<open>\<open>Some msg\<close>: the call raises; \<open>None\<close>: it returns\<close>
  xpath_result :: "event list \<Rightarrow> string \<Rightarrow> handle list"
    \<comment> \<open>the matches of a query that returns\<close>
  date_now :: "event list \<Rightarrow> int"
  cwd :: string

section \<open>Methods as state-passing functions\<close>

text \<open>
  A method body receives the object (\<^verbatim>\<open>this\<close>) and the history of events so far, and
  yields its result (\<open>Inl\<close>: the promise rejects), the object as it leaves it, and the
  events it produced itself.
\<close>

type_synonym 'a prog =
  "GoogleMeetRecorder \<Rightarrow> event list \<Rightarrow> (error + 'a) \<times> GoogleMeetRecorder \<times> event list"

definition ret :: "'a \<Rightarrow> 'a prog" where
  "ret x = (\<lambda>this h. (Inr x, this, []))"

definition throw :: "error \<Rightarrow> 'a prog" where
  "throw e = (\<lambda>this h. (Inl e, this, []))"

definition bnd :: "'a prog \<Rightarrow> ('a \<Rightarrow> 'b prog) \<Rightarrow> 'b prog" where
  "bnd m f = (\<lambda>this h.
     case m this h of
       (Inl e, this1, es1) \<Rightarrow> (Inl e, this1, es1)
     | (Inr x, this1, es1) \<Rightarrow>
         (case f x this1 (h @ es1) of (r, this2, es2) \<Rightarrow> (r, this2, es1 @ es2)))"

text \<open>A block of statements, run in order until one raises.\<close>

fun seq :: "unit prog list \<Rightarrow> unit prog" where
  "seq [] = ret ()"
| "seq (s # ss) = bnd s (\<lambda>_. seq ss)"

definition get :: "(GoogleMeetRecorder \<Rightarrow> 'a) \<Rightarrow> 'a prog" where
  "get field = (\<lambda>this h. (Inr (field this), this, []))"

definition call :: "env \<Rightarrow> action \<Rightarrow> unit prog" where
  "call E a = (\<lambda>this h.
     case respond E h a of
       None \<Rightarrow> (Inr (), this, [Call a Returned])
     | Some msg \<Rightarrow> (Inl (Raised msg), this, [Call a (Threw msg)]))"

definition query :: "env \<Rightarrow> string \<Rightarrow> handle list prog" where
  "query E xpath = (\<lambda>this h.
     case respond E h (XPath xpath) of
       None \<Rightarrow> (let elements = xpath_result E h xpath
                in (Inr elements, this, [Call (XPath xpath) (Matched elements)]))
     | Some msg \<Rightarrow> (Inl (Raised msg), this, [Call (XPath xpath) (Threw msg)]))"

definition console :: "message \<Rightarrow> unit prog" where
  "console msg = (\<lambda>this h. (Inr (), this, [Console msg]))"

text \<open>
  \<^verbatim>\<open>try { body } catch (error) { handler } finally { finalizer }\<close>: the handler runs if
  the body raised, the finalizer runs in every case, and an exception of the finalizer
  replaces the result.
\<close>

definition try_catch_finally ::
  "unit prog \<Rightarrow> (error \<Rightarrow> unit prog) \<Rightarrow> unit prog \<Rightarrow> unit prog" where
  "try_catch_finally body handler finalizer = (\<lambda>this h.
     case body this h of (r1, this1, es1) \<Rightarrow>
       (case (case r1 of
                Inl e \<Rightarrow> handler e this1 (h @ es1)
              | Inr x \<Rightarrow> (Inr x, this1, [])) of (r2, this2, es2) \<Rightarrow>
          (case finalizer this2 (h @ es1 @ es2) of (r3, this3, es3) \<Rightarrow>
             ((case r3 of Inl e \<Rightarrow> Inl e | Inr _ \<Rightarrow> r2), this3, es1 @ es2 @ es3))))"

section \<open>Element locator and interaction primitives\<close>

text \<open>Lines 42-45.\<close>

definition findElementByXPath :: "env \<Rightarrow> string \<Rightarrow> handle option prog" where
  "findElementByXPath E xpath =
     bnd (query E xpath) (\<lambda>elements.
       ret (if length elements > 0 then Some (elements ! 0) else None))"

text \<open>Lines 47-54. The argument is \<open>None\<close> when the caller passes \<^verbatim>\<open>null\<close>.\<close>

definition typeInElement :: "env \<Rightarrow> handle option \<Rightarrow> string \<Rightarrow> unit prog" where
  "typeInElement E element text =
     (case element of
        Some el \<Rightarrow> seq [call E (Click el 3), call E (TypeText el text)]
      | None \<Rightarrow> throw (Error ''Element not found for typing''))"

text \<open>Lines 56-62.\<close>

definition clickElement :: "env \<Rightarrow> handle option \<Rightarrow> unit prog" where
  "clickElement E element =
     (case element of
        Some el \<Rightarrow> call E (Click el 1)
      | None \<Rightarrow> throw (Error ''Element not found for clicking''))"

section \<open>The recording job\<close>

definition launch_args :: "string list" where
  "launch_args =
     [''--use-fake-ui-for-media-stream'',
      ''--disable-blink-features=AutomationControlled'',
      ''--start-fullscreen'',
      ''--disable-features=EnableEphemeralFlashPermission'',
      ''--disable-web-security'',
      ''--allow-file-access-from-files'',
      ''--allow-running-insecure-content'',
      ''--unsafely-treat-insecure-origin-as-secure'']"

definition xpath_continue :: string where
  \<open>xpath_continue = ''//span[contains(text(), "Continue without microphone and camera")]''\<close>

definition xpath_name :: string where
  \<open>xpath_name = ''//input[@placeholder="Your name"]''\<close>

definition xpath_join :: string where
  \<open>xpath_join = ''//span[contains(text(), "Ask to join")]''\<close>

text \<open>The body of the \<^verbatim>\<open>try\<close> block, lines 100-153.\<close>

definition startRecording_try :: "env \<Rightarrow> unit prog" where
  "startRecording_try E = seq
     [ call E (NewRecorder RecordingConfig),
       bnd (get meetUrl) (\<lambda>url. call E (Goto url 60000)),
       call E EvaluateOverride,
       call E (SetViewport 1920 1080),
       bnd (findElementByXPath E xpath_continue) (\<lambda>continueButton.
         if continueButton \<noteq> None then clickElement E continueButton else ret ()),
       bnd (findElementByXPath E xpath_name) (\<lambda>nameInput.
         if nameInput \<noteq> None then typeInElement E nameInput ''Meeting Bot'' else ret ()),
       bnd (findElementByXPath E xpath_join) (\<lambda>joinButton.
         if joinButton \<noteq> None then clickElement E joinButton else ret ()),
       bnd (get videoOutputPath) (\<lambda>path. call E (RecorderStart path)),
       bnd (get videoOutputPath) (\<lambda>path. console (RecordingStarted path)),
       bnd (get recordingDuration) (\<lambda>d. call E (WaitForTimeout d)),
       console StoppingRecording,
       call E RecorderStop,
       console RecordingSaved ]"

text \<open>Lines 64-161.\<close>

definition startRecording :: "env \<Rightarrow> unit prog" where
  "startRecording E = seq
     [ call E (Launch launch_args),
       call E NewPage,
       call E EvaluateBypass,
       call E (SetExtraHTTPHeaders ''Accept-Language'' ''en-US,en;q=0.9''),
       try_catch_finally
         (startRecording_try E)
         (\<lambda>error. console (ErrorDuringRecording error))
         (call E BrowserClose) ]"


section \<open>Paths and the constructor\<close>

text \<open>
  \<^verbatim>\<open>path.join\<close> of Node on a POSIX platform: the non-empty arguments are joined with
  \<open>/\<close> and the result is normalised, which drops empty and \<open>.\<close> segments and resolves
  \<open>..\<close> against the segment before it. Paths are handled as lists of segments.
\<close>

fun split_sep :: "string \<Rightarrow> string list" where
  "split_sep [] = [[]]"
| "split_sep (c # cs) =
     (if c = CHR ''/'' then [] # split_sep cs
      else (case split_sep cs of s # ss \<Rightarrow> (c # s) # ss | [] \<Rightarrow> [[c]]))"

fun join_sep :: "string list \<Rightarrow> string" where
  "join_sep [] = []"
| "join_sep [s] = s"
| "join_sep (s # ss) = s @ CHR ''/'' # join_sep ss"

fun normalizeString :: "bool \<Rightarrow> string list \<Rightarrow> string list \<Rightarrow> string list" where
  "normalizeString allowAboveRoot res [] = res"
| "normalizeString allowAboveRoot res (s # ss) =
     (if s = [] \<or> s = ''.'' then normalizeString allowAboveRoot res ss
      else if s = ''..'' then
        (if res \<noteq> [] \<and> last res \<noteq> ''..'' then normalizeString allowAboveRoot (butlast res) ss
         else if allowAboveRoot then normalizeString allowAboveRoot (res @ [''..'']) ss
         else normalizeString allowAboveRoot res ss)
      else normalizeString allowAboveRoot (res @ [s]) ss)"

definition normalize :: "string \<Rightarrow> string" where
  "normalize path =
     (if path = [] then ''.''
      else
        let isAbsolute = (hd path = CHR ''/'');
            trailingSeparator = (last path = CHR ''/'');
            p = join_sep (normalizeString (\<not> isAbsolute) [] (split_sep path))
        in if p = [] then (if isAbsolute then ''/'' else if trailingSeparator then ''./'' else ''.'')
           else (if isAbsolute then ''/'' else []) @ p @ (if trailingSeparator then ''/'' else []))"

definition path_join :: "string list \<Rightarrow> string" where
  "path_join args =
     (let joined = join_sep (filter (\<lambda>arg. arg \<noteq> []) args)
      in if joined = [] then ''.'' else normalize joined)"

text \<open>
  A segment that normalisation keeps as it is, and a directory in normal form: one or more
  such segments, with or without a leading \<open>/\<close>.
\<close>

definition plain_segment :: "string \<Rightarrow> bool" where
  "plain_segment s \<longleftrightarrow> s \<noteq> [] \<and> s \<noteq> ''.'' \<and> s \<noteq> ''..'' \<and> CHR ''/'' \<notin> set s"

definition plain_dir :: "string \<Rightarrow> bool" where
  "plain_dir dir \<longleftrightarrow>
     dir \<noteq> [] \<and> list_all plain_segment (split_sep (if hd dir = CHR ''/'' then tl dir else dir))"

text \<open>
  The decimal rendering of an integer, as a template literal inserts it. \<^verbatim>\<open>Date.now()\<close> is
  an integer number of milliseconds, far below the size at which JavaScript switches to
  exponent notation.
\<close>

definition digit_char :: "nat \<Rightarrow> char" where
  "digit_char d = char_of (48 + d)"

function show_nat :: "nat \<Rightarrow> string" where
  "show_nat n = (if n < 10 then [digit_char n] else show_nat (n div 10) @ [digit_char (n mod 10)])"
  by pat_completeness auto
termination
  by (relation "measure id") auto

declare show_nat.simps [simp del]

definition show_int :: "int \<Rightarrow> string" where
  "show_int i = (if i < 0 then CHR ''-'' # show_nat (nat (- i)) else show_nat (nat i))"

definition recording_name :: "int \<Rightarrow> string" where
  "recording_name timestamp = ''meet_recording_'' @ show_int timestamp @ ''.mp4''"

text \<open>
  The constructor, lines 29-40. An argument left out (\<^verbatim>\<open>undefined\<close>) is \<open>None\<close> and takes
  its default. The constructor raises when \<^verbatim>\<open>fs.mkdirSync\<close> does.
\<close>

definition GoogleMeetRecorder_new ::
  "env \<Rightarrow> string \<Rightarrow> int option \<Rightarrow> string option \<Rightarrow> event list
     \<Rightarrow> (error + GoogleMeetRecorder) \<times> event list" where
  "GoogleMeetRecorder_new E url duration_arg videoDir_arg h =
     (let duration = (case duration_arg of None \<Rightarrow> 30000 | Some d \<Rightarrow> d);
          videoDir = (case videoDir_arg of
                        None \<Rightarrow> path_join [cwd E, ''report'', ''video'']
                      | Some dir \<Rightarrow> dir)
      in case respond E h (MkdirSync videoDir) of
           Some msg \<Rightarrow> (Inl (Raised msg), [Call (MkdirSync videoDir) (Threw msg)])
         | None \<Rightarrow>
             (Inr \<lparr> meetUrl = url, recordingDuration = duration,
                    videoOutputPath =
                      path_join [videoDir,
                        recording_name (date_now E (h @ [Call (MkdirSync videoDir) Returned]))] \<rparr>,
              [Call (MkdirSync videoDir) Returned]))"

section \<open>The entry point\<close>

text \<open>\<^verbatim>\<open>main\<close>, lines 165-176.\<close>

definition main :: "env \<Rightarrow> event list \<Rightarrow> (error + unit) \<times> event list" where
  "main E h =
     (case GoogleMeetRecorder_new E ''https://meet.google.com/emr-eqin-uak'' (Some 30000) None h of
        (Inl e, es0) \<Rightarrow> (Inl e, es0)
      | (Inr meetRecorder, es0) \<Rightarrow>
          (case startRecording E meetRecorder (h @ es0) of
             (Inl error, _, es1) \<Rightarrow> (Inr (), es0 @ es1 @ [Console (MeetRecordingFailed error)])
           | (Inr _, _, es1) \<Rightarrow> (Inr (), es0 @ es1)))"

text \<open>Lines 179-181: \<^verbatim>\<open>if (require.main === module) main().catch(console.error)\<close>.\<close>

definition entry_point :: "env \<Rightarrow> bool \<Rightarrow> event list \<Rightarrow> (error + unit) \<times> event list" where
  "entry_point E run_directly h =
     (if run_directly then
        (case main E h of
           (Inl e, es) \<Rightarrow> (Inr (), es @ [Console (Uncaught e)])
         | (Inr u, es) \<Rightarrow> (Inr u, es))
      else (Inr (), []))"

section \<open>Observing an execution\<close>

definition result_of :: "'r \<times> GoogleMeetRecorder \<times> event list \<Rightarrow> 'r" where
  "result_of x = fst x"

definition object_of :: "'r \<times> GoogleMeetRecorder \<times> event list \<Rightarrow> GoogleMeetRecorder" where
  "object_of x = fst (snd x)"

definition events_of :: "'r \<times> GoogleMeetRecorder \<times> event list \<Rightarrow> event list" where
  "events_of x = snd (snd x)"

fun is_call :: "action \<Rightarrow> event \<Rightarrow> bool" where
  "is_call a (Call b _) = (a = b)"
| "is_call a (Console _) = False"

definition invocations :: "action \<Rightarrow> event list \<Rightarrow> nat" where
  "invocations a es = length (filter (is_call a) es)"

text \<open>The actions of the navigator part of the \<^verbatim>\<open>try\<close> block (lines 100-142).\<close>

fun nav_action :: "action \<Rightarrow> bool" where
  "nav_action (NewRecorder _) = True"
| "nav_action (Goto _ _) = True"
| "nav_action EvaluateOverride = True"
| "nav_action (SetViewport _ _) = True"
| "nav_action (XPath _) = True"
| "nav_action (Click _ _) = True"
| "nav_action (TypeText _ _) = True"
| "nav_action _ = False"


text \<open>The error a console message carries, if any.\<close>

fun reported :: "message \<Rightarrow> error option" where
  "reported (ErrorDuringRecording e) = Some e"
| "reported (MeetRecordingFailed e) = Some e"
| "reported (Uncaught e) = Some e"
| "reported _ = None"

text \<open>The outcome recorded for a call that yields no value: it returned, or it raised.\<close>

fun answer :: "string option \<Rightarrow> outcome" where
  "answer None = Returned"
| "answer (Some msg) = Threw msg"

text \<open>
  What a navigator step leaves in the trace when nothing raises: the query with its matches
  and, if there is a match, the actions on the first one.
\<close>

definition step_events :: "string \<Rightarrow> handle list \<Rightarrow> (handle \<Rightarrow> event list) \<Rightarrow> event list" where
  "step_events xpath elements acts =
     Call (XPath xpath) (Matched elements) # (case elements of [] \<Rightarrow> [] | el # _ \<Rightarrow> acts el)"

subsection \<open>Sample environments\<close>

text \<open>
  An environment whose answers do not depend on the history: \<open>f\<close> says which calls raise,
  \<open>g\<close> what each query matches.
\<close>

definition scripted :: "(action \<Rightarrow> string option) \<Rightarrow> (string \<Rightarrow> handle list) \<Rightarrow> env" where
  "scripted f g =
     \<lparr> respond = (\<lambda>h. f), xpath_result = (\<lambda>h. g),
       date_now = (\<lambda>h. 1700000000000 + int (length h)), cwd = ''/home/bot'' \<rparr>"

definition job0 :: GoogleMeetRecorder where
  "job0 = \<lparr> meetUrl = ''https://meet.google.com/emr-eqin-uak'', recordingDuration = 30000,
             videoOutputPath = ''/home/bot/report/video/meet_recording_1700000000001.mp4'' \<rparr>"

definition job1 :: GoogleMeetRecorder where
  "job1 = \<lparr> meetUrl = ''u'', recordingDuration = 5000,
             videoOutputPath = ''out/meet_recording_1700000000002.mp4'' \<rparr>"

definition no_prompt :: "string \<Rightarrow> handle list" where
  "no_prompt q = (if q = xpath_continue then [] else if q = xpath_name then [4] else [7, 8])"

definition all_fine :: env where
  "all_fine = scripted (\<lambda>a. None) no_prompt"

definition evaluate_raises :: env where
  "evaluate_raises =
     scripted (\<lambda>a. if a = EvaluateBypass then Some ''Target closed'' else None) no_prompt"

definition goto_raises :: env where
  "goto_raises =
     scripted (\<lambda>a. case a of Goto _ _ \<Rightarrow> Some ''Navigation timeout'' | _ \<Rightarrow> None) no_prompt"

definition start_raises :: env where
  "start_raises =
     scripted (\<lambda>a. case a of RecorderStart _ \<Rightarrow> Some ''ffmpeg not found'' | _ \<Rightarrow> None) no_prompt"

definition start_and_close_raise :: env where
  "start_and_close_raise =
     scripted (\<lambda>a. case a of RecorderStart _ \<Rightarrow> Some ''ffmpeg not found''
                 | BrowserClose \<Rightarrow> Some ''Protocol error'' | _ \<Rightarrow> None) no_prompt"

definition wait_raises :: env where
  "wait_raises =
     scripted (\<lambda>a. case a of WaitForTimeout _ \<Rightarrow> Some ''Target closed'' | _ \<Rightarrow> None) no_prompt"

definition query_raises :: env where
  "query_raises =
     scripted (\<lambda>a. case a of XPath _ \<Rightarrow> Some ''Protocol error'' | _ \<Rightarrow> None) no_prompt"


section \<open>What a method guarantees\<close>

text \<open>
  \<open>ensures m Q\<close>: from every object and history, \<open>m\<close> leaves the object as it found it,
  and its result and events satisfy \<open>Q\<close>.
\<close>

definition ensures ::
  "'a prog \<Rightarrow> (GoogleMeetRecorder \<Rightarrow> (error + 'a) \<Rightarrow> event list \<Rightarrow> bool) \<Rightarrow> bool" where
  "ensures m Q \<longleftrightarrow> (\<forall>this h. case m this h of (r, this', es) \<Rightarrow> this' = this \<and> Q this r es)"

text \<open>
  The navigator part only calls navigator actions; a call that raised is the reason the
  part raised, and the part raises for no other reason.
\<close>

definition nav_post :: "GoogleMeetRecorder \<Rightarrow> (error + 'a) \<Rightarrow> event list \<Rightarrow> bool" where
  "nav_post this r es \<longleftrightarrow>
     (\<forall>e \<in> set es. \<exists>a out. e = Call a out \<and> nav_action a) \<and>
     (\<forall>a msg. Call a (Threw msg) \<in> set es \<longrightarrow> r = Inl (Raised msg)) \<and>
     (\<forall>e. r = Inl e \<longrightarrow> (\<exists>a msg. e = Raised msg \<and> Call a (Threw msg) \<in> set es))"

text \<open>The \<^verbatim>\<open>try\<close> block in two parts: lines 100-142 and lines 144-153.\<close>

definition nav_block :: "env \<Rightarrow> unit prog list" where
  "nav_block E = [ call E (NewRecorder RecordingConfig),
       bnd (get meetUrl) (\<lambda>url. call E (Goto url 60000)),
       call E EvaluateOverride,
       call E (SetViewport 1920 1080),
       bnd (findElementByXPath E xpath_continue) (\<lambda>continueButton.
         if continueButton \<noteq> None then clickElement E continueButton else ret ()),
       bnd (findElementByXPath E xpath_name) (\<lambda>nameInput.
         if nameInput \<noteq> None then typeInElement E nameInput ''Meeting Bot'' else ret ()),
       bnd (findElementByXPath E xpath_join) (\<lambda>joinButton.
         if joinButton \<noteq> None then clickElement E joinButton else ret ())]"

definition tail_block :: "env \<Rightarrow> unit prog list" where
  "tail_block E = [
       bnd (get videoOutputPath) (\<lambda>path. call E (RecorderStart path)),
       bnd (get videoOutputPath) (\<lambda>path. console (RecordingStarted path)),
       bnd (get recordingDuration) (\<lambda>d. call E (WaitForTimeout d)),
       console StoppingRecording,
       call E RecorderStop,
       console RecordingSaved ]"

text \<open>The four ways the recording part can go.\<close>

definition tail_post :: "GoogleMeetRecorder \<Rightarrow> (error + unit) \<Rightarrow> event list \<Rightarrow> bool" where
  "tail_post this r es \<longleftrightarrow>
     (let start = RecorderStart (videoOutputPath this);
          started = [Call start Returned, Console (RecordingStarted (videoOutputPath this))];
          wait = WaitForTimeout (recordingDuration this);
          waited = started @ [Call wait Returned, Console StoppingRecording]
      in (\<exists>msg. r = Inl (Raised msg) \<and> es = [Call start (Threw msg)]) \<or>
         (\<exists>msg. r = Inl (Raised msg) \<and> es = started @ [Call wait (Threw msg)]) \<or>
         (\<exists>msg. r = Inl (Raised msg) \<and> es = waited @ [Call RecorderStop (Threw msg)]) \<or>
         (r = Inr () \<and> es = waited @ [Call RecorderStop Returned, Console RecordingSaved]))"

text \<open>
  \<open>returns s S\<close>: whenever the statement \<open>s\<close> completes normally, its events have the
  shape \<open>S\<close>; the events of a block that completes are those of its statements, in order.
\<close>

definition returns :: "unit prog \<Rightarrow> (GoogleMeetRecorder \<Rightarrow> event list \<Rightarrow> bool) \<Rightarrow> bool" where
  "returns s S \<longleftrightarrow> ensures s (\<lambda>this r es. r = Inr () \<longrightarrow> S this es)"

fun shapes ::
  "(GoogleMeetRecorder \<Rightarrow> event list \<Rightarrow> bool) list \<Rightarrow> GoogleMeetRecorder \<Rightarrow> event list \<Rightarrow> bool" where
  "shapes [] this es \<longleftrightarrow> es = []"
| "shapes (S # Ss) this es \<longleftrightarrow> (\<exists>es1 es2. es = es1 @ es2 \<and> S this es1 \<and> shapes Ss this es2)"

text \<open>Some call of the trace raised.\<close>

fun threw :: "event \<Rightarrow> bool" where
  "threw (Call _ (Threw _)) = True"
| "threw _ = False"

definition raised_in :: "event list \<Rightarrow> bool" where
  "raised_in es \<longleftrightarrow> (\<exists>e \<in> set es. threw e)"

text \<open>The events of a recording part that completed.\<close>

definition recorded :: "GoogleMeetRecorder \<Rightarrow> event list" where
  "recorded this =
     [Call (RecorderStart (videoOutputPath this)) Returned,
      Console (RecordingStarted (videoOutputPath this)),
      Call (WaitForTimeout (recordingDuration this)) Returned,
      Console StoppingRecording, Call RecorderStop Returned, Console RecordingSaved]"

text \<open>The events of a navigator part that completed.\<close>

definition nav_shape :: "GoogleMeetRecorder \<Rightarrow> event list \<Rightarrow> bool" where
  "nav_shape this es \<longleftrightarrow>
     (\<exists>c n j. es =
        [Call (NewRecorder RecordingConfig) Returned, Call (Goto (meetUrl this) 60000) Returned,
         Call EvaluateOverride Returned, Call (SetViewport 1920 1080) Returned] @
        step_events xpath_continue c (\<lambda>el. [Call (Click el 1) Returned]) @
        step_events xpath_name n
          (\<lambda>el. [Call (Click el 3) Returned, Call (TypeText el ''Meeting Bot'') Returned]) @
        step_events xpath_join j (\<lambda>el. [Call (Click el 1) Returned]))"

definition try_post :: "GoogleMeetRecorder \<Rightarrow> (error + unit) \<Rightarrow> event list \<Rightarrow> bool" where
  "try_post this r es \<longleftrightarrow>
     (\<exists>msg. r = Inl (Raised msg) \<and> nav_post this r es) \<or>
     (\<exists>na ta. es = na @ ta \<and> nav_post this (Inr () :: error + unit) na \<and> nav_shape this na \<and>
        tail_post this r ta)"

text \<open>\<^verbatim>\<open>startRecording\<close> in two parts: lines 66-97, and the guarded statement of lines 99-160.\<close>

definition setup_block :: "env \<Rightarrow> unit prog list" where
  "setup_block E =
     [ call E (Launch launch_args),
       call E NewPage,
       call E EvaluateBypass,
       call E (SetExtraHTTPHeaders ''Accept-Language'' ''en-US,en;q=0.9'') ]"

definition guarded :: "env \<Rightarrow> unit prog" where
  "guarded E =
     try_catch_finally (startRecording_try E)
       (\<lambda>error. console (ErrorDuringRecording error)) (call E BrowserClose)"

definition setup_ok :: "event list" where
  "setup_ok =
     [Call (Launch launch_args) Returned, Call NewPage Returned, Call EvaluateBypass Returned,
      Call (SetExtraHTTPHeaders ''Accept-Language'' ''en-US,en;q=0.9'') Returned]"

definition setup_failed :: "error + unit \<Rightarrow> event list \<Rightarrow> bool" where
  "setup_failed r es \<longleftrightarrow>
     (\<exists>msg. r = Inl (Raised msg) \<and>
        (es = [Call (Launch launch_args) (Threw msg)] \<or>
         es = [Call (Launch launch_args) Returned, Call NewPage (Threw msg)] \<or>
         es = [Call (Launch launch_args) Returned, Call NewPage Returned,
               Call EvaluateBypass (Threw msg)] \<or>
         es = [Call (Launch launch_args) Returned, Call NewPage Returned,
               Call EvaluateBypass Returned,
               Call (SetExtraHTTPHeaders ''Accept-Language'' ''en-US,en;q=0.9'') (Threw msg)]))"

fun caught :: "error + unit \<Rightarrow> event list" where
  "caught (Inl e) = [Console (ErrorDuringRecording e)]"
| "caught (Inr _) = []"

definition guarded_post :: "GoogleMeetRecorder \<Rightarrow> (error + unit) \<Rightarrow> event list \<Rightarrow> bool" where
  "guarded_post this r es \<longleftrightarrow>
     (\<exists>rt te. try_post this rt te \<and>
        ((r = Inr () \<and> es = te @ caught rt @ [Call BrowserClose Returned]) \<or>
         (\<exists>msg. r = Inl (Raised msg) \<and> es = te @ caught rt @ [Call BrowserClose (Threw msg)])))"

definition start_post :: "GoogleMeetRecorder \<Rightarrow> (error + unit) \<Rightarrow> event list \<Rightarrow> bool" where
  "start_post this r es \<longleftrightarrow>
     setup_failed r es \<or> (\<exists>ge. es = setup_ok @ ge \<and> guarded_post this r ge)"

section \<open>Lemmas about the combinators\<close>

lemma ensuresD:
  "ensures m Q \<Longrightarrow> m this h = (r, this', es) \<Longrightarrow> this' = this \<and> Q this r es"
  unfolding ensures_def by (metis (mono_tags, lifting) case_prod_conv)

lemma ensures_weaken:
  "ensures m P \<Longrightarrow> (\<And>this r es. P this r es \<Longrightarrow> Q this r es) \<Longrightarrow> ensures m Q"
  unfolding ensures_def by (auto split: prod.splits)

lemma ensures_ret: "(\<And>this. Q this (Inr x) []) \<Longrightarrow> ensures (ret x) Q"
  by (simp add: ensures_def ret_def)

lemma ensures_throw: "(\<And>this. Q this (Inl e) []) \<Longrightarrow> ensures (throw e) Q"
  by (simp add: ensures_def throw_def)

lemma ensures_get: "(\<And>this. Q this (Inr (field this)) []) \<Longrightarrow> ensures (get field) Q"
  by (simp add: ensures_def get_def)

lemma ensures_console: "(\<And>this. Q this (Inr ()) [Console msg]) \<Longrightarrow> ensures (console msg) Q"
  by (simp add: ensures_def console_def)

lemma ensures_call:
  "(\<And>this. Q this (Inr ()) [Call a Returned]) \<Longrightarrow>
   (\<And>this msg. Q this (Inl (Raised msg)) [Call a (Threw msg)]) \<Longrightarrow> ensures (call E a) Q"
  by (simp add: ensures_def call_def split: option.splits)

lemma ensures_query:
  "(\<And>this ms. Q this (Inr ms) [Call (XPath q) (Matched ms)]) \<Longrightarrow>
   (\<And>this msg. Q this (Inl (Raised msg)) [Call (XPath q) (Threw msg)]) \<Longrightarrow> ensures (query E q) Q"
  by (simp add: ensures_def query_def Let_def split: option.splits)

lemma ensures_bnd:
  assumes m: "ensures m P"
    and f: "\<And>x. ensures (f x) (R x)"
    and fail: "\<And>this e es. P this (Inl e) es \<Longrightarrow> Q this (Inl e) es"
    and ok: "\<And>this x es r es'. P this (Inr x) es \<Longrightarrow> R x this r es' \<Longrightarrow> Q this r (es @ es')"
  shows "ensures (bnd m f) Q"
  unfolding ensures_def
proof (intro allI)
  fix this h
  obtain r1 this1 es1 where m1: "m this h = (r1, this1, es1)" by (cases "m this h") auto
  from ensuresD [OF m m1] have t1: "this1 = this" and p: "P this r1 es1" by auto
  show "case bnd m f this h of (r, this', es) \<Rightarrow> this' = this \<and> Q this r es"
  proof (cases r1)
    case (Inl e)
    with m1 t1 p fail show ?thesis by (simp add: bnd_def)
  next
    case (Inr x)
    obtain r2 this2 es2 where f2: "f x this (h @ es1) = (r2, this2, es2)"
      by (cases "f x this (h @ es1)") auto
    from ensuresD [OF f f2] have "this2 = this" and "R x this r2 es2" by auto
    with Inr m1 t1 p f2 ok show ?thesis by (simp add: bnd_def)
  qed
qed

subsection \<open>The navigator part\<close>

lemma invocations_simps [simp]:
  "invocations a [] = 0"
  "invocations a (e # es) = (if is_call a e then 1 else 0) + invocations a es"
  "invocations a (xs @ ys) = invocations a xs + invocations a ys"
  by (simp_all add: invocations_def)

lemma nav_invocations: "nav_post this r na \<Longrightarrow> \<not> nav_action a \<Longrightarrow> invocations a na = 0"
  unfolding nav_post_def invocations_def by (auto simp: filter_empty_conv)

lemma nav_calls: "nav_post this r na \<Longrightarrow> Call a out \<in> set na \<Longrightarrow> nav_action a"
  unfolding nav_post_def by auto

lemma nav_console: "nav_post this r na \<Longrightarrow> Console msg \<notin> set na"
  unfolding nav_post_def by auto

lemma nav_threw: "nav_post this r na \<Longrightarrow> Call a (Threw msg) \<in> set na \<Longrightarrow> r = Inl (Raised msg)"
  unfolding nav_post_def by auto

lemma nav_raised: "nav_post this (Inl e) na \<Longrightarrow> \<exists>a msg. e = Raised msg \<and> Call a (Threw msg) \<in> set na"
  unfolding nav_post_def by auto

lemma nav_bnd:
  "ensures m nav_post \<Longrightarrow> (\<And>x. ensures (f x) nav_post) \<Longrightarrow> ensures (bnd m f) nav_post"
  by (erule ensures_bnd [where R = "\<lambda>_. nav_post"]) (auto simp: nav_post_def)

lemma nav_call: "nav_action a \<Longrightarrow> ensures (call E a) nav_post"
  by (rule ensures_call) (auto simp: nav_post_def)

lemma nav_ret: "ensures (ret x) nav_post"
  by (rule ensures_ret) (simp add: nav_post_def)

lemma nav_get: "ensures (get f) nav_post"
  by (rule ensures_get) (simp add: nav_post_def)

lemma nav_find: "ensures (findElementByXPath E q) nav_post"
  unfolding findElementByXPath_def
  by (intro nav_bnd nav_ret ensures_query) (auto simp: nav_post_def)

lemma nav_click: "b \<noteq> None \<Longrightarrow> ensures (clickElement E b) nav_post"
  by (cases b) (auto simp: clickElement_def intro: nav_call)

lemma nav_type: "b \<noteq> None \<Longrightarrow> ensures (typeInElement E b t) nav_post"
  by (cases b) (auto simp: typeInElement_def intro!: nav_call nav_bnd nav_ret)

lemma nav_seq: "(\<And>s. s \<in> set ss \<Longrightarrow> ensures s nav_post) \<Longrightarrow> ensures (seq ss) nav_post"
  by (induction ss) (auto intro!: nav_bnd nav_ret)

lemma nav_block: "ensures (seq (nav_block E)) nav_post"
  apply (rule nav_seq)
  apply (auto simp: nav_block_def intro!: nav_bnd nav_call nav_get nav_find nav_ret nav_click nav_type)
  done

subsection \<open>The recording part and the whole \<^verbatim>\<open>try\<close> block\<close>

lemma tail_block: "ensures (seq (tail_block E)) tail_post"
  by (simp add: ensures_def tail_block_def tail_post_def bnd_def get_def call_def console_def ret_def
      split: option.splits)

lemma bnd_ret: "bnd (ret x) f = f x"
  by (simp add: bnd_def ret_def fun_eq_iff split: prod.splits)

lemma bnd_assoc: "bnd (bnd m f) g = bnd m (\<lambda>x. bnd (f x) g)"
  by (simp add: bnd_def fun_eq_iff split: prod.splits sum.splits)

lemma seq_append: "seq (xs @ ys) = bnd (seq xs) (\<lambda>_. seq ys)"
  by (induction xs) (simp_all add: bnd_ret bnd_assoc)

lemma ensures_conj:
  "ensures m P \<Longrightarrow> ensures m Q \<Longrightarrow> ensures m (\<lambda>this r es. P this r es \<and> Q this r es)"
  unfolding ensures_def by (auto split: prod.splits)

lemma returns_seq: "list_all2 returns ss Ss \<Longrightarrow> returns (seq ss) (shapes Ss)"
proof (induction rule: list_all2_induct)
  case Nil
  show ?case by (simp add: returns_def ensures_ret)
next
  case (Cons s ss S Ss)
  then have first: "ensures s (\<lambda>this r es. r = Inr () \<longrightarrow> S this es)"
    and rest: "ensures (seq ss) (\<lambda>this r es. r = Inr () \<longrightarrow> shapes Ss this es)"
    by (simp_all add: returns_def)
  have "ensures (bnd s (\<lambda>_. seq ss)) (\<lambda>this r es. r = Inr () \<longrightarrow> shapes (S # Ss) this es)"
    by (rule ensures_bnd [OF first rest]) auto
  then show ?case by (simp add: returns_def)
qed

lemma returns_call: "returns (call E a) (\<lambda>this es. es = [Call a Returned])"
  unfolding returns_def by (rule ensures_call) simp_all

lemma returns_goto:
  "returns (bnd (get meetUrl) (\<lambda>url. call E (Goto url 60000)))
     (\<lambda>this es. es = [Call (Goto (meetUrl this) 60000) Returned])"
  by (simp add: returns_def ensures_def bnd_def get_def call_def split: option.splits)

lemma returns_click_step:
  "returns (bnd (findElementByXPath E q) (\<lambda>b. if b \<noteq> None then clickElement E b else ret ()))
     (\<lambda>this es. \<exists>ms. es = step_events q ms (\<lambda>el. [Call (Click el 1) Returned]))"
  by (auto simp: returns_def ensures_def findElementByXPath_def clickElement_def bnd_def query_def
      call_def ret_def step_events_def Let_def split: option.splits list.splits)

lemma returns_type_step:
  "returns (bnd (findElementByXPath E q) (\<lambda>b. if b \<noteq> None then typeInElement E b str else ret ()))
     (\<lambda>this es. \<exists>ms. es = step_events q ms
        (\<lambda>el. [Call (Click el 3) Returned, Call (TypeText el str) Returned]))"
  by (auto simp: returns_def ensures_def findElementByXPath_def typeInElement_def bnd_def query_def
      call_def ret_def step_events_def Let_def split: option.splits list.splits)

lemma nav_block_shape: "ensures (seq (nav_block E)) (\<lambda>this r es. r = Inr () \<longrightarrow> nav_shape this es)"
proof -
  have "returns (seq (nav_block E))
      (shapes
        [\<lambda>this es. es = [Call (NewRecorder RecordingConfig) Returned],
         \<lambda>this es. es = [Call (Goto (meetUrl this) 60000) Returned],
         \<lambda>this es. es = [Call EvaluateOverride Returned],
         \<lambda>this es. es = [Call (SetViewport 1920 1080) Returned],
         \<lambda>this es. \<exists>ms. es = step_events xpath_continue ms (\<lambda>el. [Call (Click el 1) Returned]),
         \<lambda>this es. \<exists>ms. es = step_events xpath_name ms
           (\<lambda>el. [Call (Click el 3) Returned, Call (TypeText el ''Meeting Bot'') Returned]),
         \<lambda>this es. \<exists>ms. es = step_events xpath_join ms (\<lambda>el. [Call (Click el 1) Returned])])"
    unfolding nav_block_def
    by (rule returns_seq)
      (simp only: list_all2_Cons list_all2_Nil returns_call returns_goto returns_click_step
        returns_type_step simp_thms)
  then show ?thesis
    unfolding returns_def by (rule ensures_weaken) (auto simp: nav_shape_def)
qed

lemma try_split: "startRecording_try E = bnd (seq (nav_block E)) (\<lambda>_. seq (tail_block E))"
  unfolding startRecording_try_def seq_append [symmetric] nav_block_def tail_block_def by simp

lemma try_block: "ensures (startRecording_try E) try_post"
  unfolding try_split
proof (rule ensures_bnd [OF ensures_conj [OF nav_block nav_block_shape] tail_block])
  fix this e es
  assume "nav_post this (Inl e :: error + unit) es \<and> (Inl e = Inr () \<longrightarrow> nav_shape this es)"
  then show "try_post this (Inl e) es" by (auto simp: try_post_def dest: nav_raised)
next
  fix this x es r es'
  assume "nav_post this (Inr x :: error + unit) es \<and> (Inr x = Inr () \<longrightarrow> nav_shape this es)"
    and "tail_post this r es'"
  then show "try_post this r (es @ es')"
    unfolding try_post_def by (intro disjI2 exI [of _ es] exI [of _ es']) simp
qed

subsection \<open>The whole of \<^verbatim>\<open>startRecording\<close>\<close>

lemma bnd_unit: "bnd m (\<lambda>_. ret ()) = (m :: unit prog)"
  by (simp add: bnd_def ret_def fun_eq_iff split: prod.splits sum.splits)

lemma start_split: "startRecording E = bnd (seq (setup_block E)) (\<lambda>_. guarded E)"
proof -
  have "startRecording E = seq (setup_block E @ [guarded E])"
    by (simp add: startRecording_def setup_block_def guarded_def)
  then show ?thesis by (simp only: seq_append seq.simps bnd_unit)
qed

lemma setup_block:
  "ensures (seq (setup_block E))
     (\<lambda>this r es. r = Inr () \<and> es = setup_ok \<or> r \<noteq> Inr () \<and> setup_failed r es)"
  by (simp add: ensures_def setup_block_def setup_ok_def setup_failed_def bnd_def call_def ret_def
      split: option.splits)

lemma guarded: "ensures (guarded E) guarded_post"
  unfolding ensures_def
proof (intro allI)
  fix this h
  obtain rt this1 te where body: "startRecording_try E this h = (rt, this1, te)"
    by (cases "startRecording_try E this h") auto
  from ensuresD [OF try_block body] have this1: "this1 = this" and post: "try_post this rt te"
    by auto
  let ?answer = "respond E (h @ te @ caught rt) BrowserClose"
  have run: "guarded E this h =
      ((case ?answer of None \<Rightarrow> Inr () | Some msg \<Rightarrow> Inl (Raised msg)), this,
       te @ caught rt @ [Call BrowserClose (case ?answer of None \<Rightarrow> Returned | Some msg \<Rightarrow> Threw msg)])"
    using body this1
    by (cases rt) (simp_all add: guarded_def try_catch_finally_def console_def call_def
        split: option.splits)
  have "guarded_post this (case ?answer of None \<Rightarrow> Inr () | Some msg \<Rightarrow> Inl (Raised msg))
      (te @ caught rt @ [Call BrowserClose (case ?answer of None \<Rightarrow> Returned | Some msg \<Rightarrow> Threw msg)])"
    unfolding guarded_post_def using post
    by (intro exI [of _ rt] exI [of _ te]) (simp split: option.splits)
  with run show "case guarded E this h of (r, this', es) \<Rightarrow> this' = this \<and> guarded_post this r es"
    by simp
qed

lemma startRecording_post: "ensures (startRecording E) start_post"
  unfolding start_split
proof (rule ensures_bnd [OF setup_block guarded])
  fix this e es
  assume "Inl e = Inr () \<and> es = setup_ok \<or> Inl e \<noteq> Inr () \<and> setup_failed (Inl e) es"
  then show "start_post this (Inl e) es" by (simp add: start_post_def)
next
  fix this and x :: unit and es r es'
  assume "Inr x = Inr () \<and> es = setup_ok \<or> Inr x \<noteq> Inr () \<and> setup_failed (Inr x) es"
    and "guarded_post this r es'"
  then show "start_post this r (es @ es')" by (auto simp: start_post_def)
qed

lemmas post_defs = start_post_def guarded_post_def try_post_def tail_post_def setup_failed_def
  setup_ok_def Let_def

lemmas nav_facts = nav_calls nav_console nav_threw nav_raised

lemma startRecording_run:
  "object_of (startRecording E this h) = this \<and>
   start_post this (result_of (startRecording E this h)) (events_of (startRecording E this h))"
  using ensuresD [OF startRecording_post, of E this h]
  by (cases "startRecording E this h") (simp add: object_of_def result_of_def events_of_def)

lemmas run_defs = startRecording_def startRecording_try_def bnd_def call_def query_def console_def
  get_def ret_def throw_def findElementByXPath_def clickElement_def typeInElement_def
  try_catch_finally_def scripted_def no_prompt_def job0_def events_of_def result_of_def
  object_of_def xpath_continue_def xpath_name_def xpath_join_def Let_def

lemma startRecording_raises_no_error:
  assumes "startRecording E this h = (r, this', es)"
  shows "r \<noteq> Inl (Error m) \<and> (Console msg \<in> set es \<longrightarrow> reported msg \<noteq> Some (Error m))"
proof -
  from ensuresD [OF startRecording_post assms] have "start_post this r es" by simp
  then show ?thesis
    unfolding post_defs by (auto dest: nav_facts)
qed

section \<open>Recorder lifecycle\<close>

text \<open>
  Claim C1, as the code has it. In every execution of \<open>startRecording\<close> in which the
  recorder's start and the timed wait after it both returned, the recorder's stop is invoked
  exactly once, whether or not stop itself raises; when the timed wait raises, control goes
  to the \<^verbatim>\<open>catch\<close> block and stop is not invoked; stop is never invoked twice.
\<close>

theorem stop_invoked_after_wait:
  "(Call (RecorderStart p) Returned \<in> set (events_of (startRecording E this h)) \<and>
    Call (WaitForTimeout d) Returned \<in> set (events_of (startRecording E this h))
      \<longrightarrow> invocations RecorderStop (events_of (startRecording E this h)) = 1) \<and>
   (Call (WaitForTimeout d) (Threw msg) \<in> set (events_of (startRecording E this h))
      \<longrightarrow> invocations RecorderStop (events_of (startRecording E this h)) = 0) \<and>
   invocations RecorderStop (events_of (startRecording E this h)) \<le> 1"
proof -
  from startRecording_run [of E this h]
  have "start_post this (result_of (startRecording E this h)) (events_of (startRecording E this h))"
    by simp
  then show ?thesis
    unfolding post_defs by (auto dest: nav_facts simp: nav_invocations)
qed

theorem stop_invoked_after_wait_witness:
  "Call (RecorderStart (videoOutputPath job0)) Returned
     \<in> set (events_of (startRecording all_fine job0 [])) \<and>
   Call (WaitForTimeout 30000) Returned \<in> set (events_of (startRecording all_fine job0 [])) \<and>
   invocations RecorderStop (events_of (startRecording all_fine job0 [])) = 1 \<and>
   Call (WaitForTimeout 30000) (Threw ''Target closed'')
     \<in> set (events_of (startRecording wait_raises job0 [])) \<and>
   invocations RecorderStop (events_of (startRecording wait_raises job0 [])) = 0"
proof -
  have started: "Call (RecorderStart (videoOutputPath job0)) Returned
      \<in> set (events_of (startRecording all_fine job0 []))"
    and waited: "Call (WaitForTimeout 30000) Returned
      \<in> set (events_of (startRecording all_fine job0 []))"
    by (simp_all add: run_defs all_fine_def)
  have interrupted: "Call (WaitForTimeout 30000) (Threw ''Target closed'')
      \<in> set (events_of (startRecording wait_raises job0 []))"
    by (simp add: run_defs wait_raises_def)
  from started waited interrupted
    stop_invoked_after_wait [of "videoOutputPath job0" all_fine job0 "[]" 30000]
    stop_invoked_after_wait [of _ wait_raises job0 "[]" 30000 "''Target closed''"]
  show ?thesis by simp
qed

text \<open>
  Claim C1 as stated fails: when the timed wait raises after the recorder has started, the
  job ends with stop never invoked.
\<close>

theorem stop_missing_counterexample:
  "Call (RecorderStart (videoOutputPath job0)) Returned
     \<in> set (events_of (startRecording wait_raises job0 [])) \<and>
   invocations RecorderStop (events_of (startRecording wait_raises job0 [])) \<noteq> 1"
  by (simp add: run_defs wait_raises_def)

text \<open>
  Claim C4, as the code has it. If the recorder's start raises, the error is logged by the
  \<^verbatim>\<open>catch\<close> block, no success message is printed, the browser close is invoked (once),
  and stop is not invoked. The job is not reported as failed: \<open>startRecording\<close> completes
  normally when the close returns, and rejects only with what the close itself raises.
\<close>

theorem start_failure:
  assumes "Call (RecorderStart p) (Threw msg) \<in> set (events_of (startRecording E this h))"
  shows "Console (ErrorDuringRecording (Raised msg)) \<in> set (events_of (startRecording E this h)) \<and>
         invocations BrowserClose (events_of (startRecording E this h)) = 1 \<and>
         invocations RecorderStop (events_of (startRecording E this h)) = 0 \<and>
         Console RecordingSaved \<notin> set (events_of (startRecording E this h)) \<and>
         (Call BrowserClose Returned \<in> set (events_of (startRecording E this h)) \<longrightarrow>
            result_of (startRecording E this h) = Inr ()) \<and>
         (Call BrowserClose (Threw reason) \<in> set (events_of (startRecording E this h)) \<longrightarrow>
            result_of (startRecording E this h) = Inl (Raised reason))"
proof -
  from startRecording_run [of E this h]
  have "start_post this (result_of (startRecording E this h)) (events_of (startRecording E this h))"
    by simp
  with assms show ?thesis
    unfolding post_defs by (auto dest: nav_facts simp: nav_invocations)
qed

theorem start_failure_witness:
  "Call (RecorderStart (videoOutputPath job0)) (Threw ''ffmpeg not found'')
     \<in> set (events_of (startRecording start_raises job0 [])) \<and>
   Console (ErrorDuringRecording (Raised ''ffmpeg not found''))
     \<in> set (events_of (startRecording start_raises job0 [])) \<and>
   invocations BrowserClose (events_of (startRecording start_raises job0 [])) = 1 \<and>
   invocations RecorderStop (events_of (startRecording start_raises job0 [])) = 0 \<and>
   Console RecordingSaved \<notin> set (events_of (startRecording start_raises job0 [])) \<and>
   Call BrowserClose Returned \<in> set (events_of (startRecording start_raises job0 [])) \<and>
   result_of (startRecording start_raises job0 []) = Inr () \<and>
   Call (RecorderStart (videoOutputPath job0)) (Threw ''ffmpeg not found'')
     \<in> set (events_of (startRecording start_and_close_raise job0 [])) \<and>
   Call BrowserClose (Threw ''Protocol error'')
     \<in> set (events_of (startRecording start_and_close_raise job0 [])) \<and>
   result_of (startRecording start_and_close_raise job0 []) = Inl (Raised ''Protocol error'')"
proof -
  have raised: "Call (RecorderStart (videoOutputPath job0)) (Threw ''ffmpeg not found'')
      \<in> set (events_of (startRecording start_raises job0 []))"
    and closed: "Call BrowserClose Returned
      \<in> set (events_of (startRecording start_raises job0 []))"
    by (simp_all add: run_defs start_raises_def)
  have raised': "Call (RecorderStart (videoOutputPath job0)) (Threw ''ffmpeg not found'')
      \<in> set (events_of (startRecording start_and_close_raise job0 []))"
    and unclosed: "Call BrowserClose (Threw ''Protocol error'')
      \<in> set (events_of (startRecording start_and_close_raise job0 []))"
    by (simp_all add: run_defs start_and_close_raise_def)
  from start_failure [OF raised] start_failure [OF raised', where reason = "''Protocol error''"]
    raised closed raised' unclosed
  show ?thesis by simp
qed

text \<open>
  Claim C4 as stated fails: when the recorder's start raises, the job does not fail.
  \<open>startRecording\<close> completes normally, as it does when everything succeeds, and \<open>main\<close>
  around it completes too, its last event being the browser close: no failure is reported.
\<close>

theorem start_failure_not_reported_counterexample:
  "Call (RecorderStart (videoOutputPath job0)) (Threw ''ffmpeg not found'')
     \<in> set (events_of (startRecording start_raises job0 [])) \<and>
   result_of (startRecording start_raises job0 []) = Inr () \<and>
   result_of (startRecording all_fine job0 []) = Inr () \<and>
   fst (main start_raises []) = Inr () \<and>
   last (snd (main start_raises [])) = Call BrowserClose Returned"
  by (simp add: run_defs start_raises_def all_fine_def main_def GoogleMeetRecorder_new_def)

section \<open>Browser lifecycle\<close>

text \<open>
  Claim C2 at an input where it fails: the first \<^verbatim>\<open>page.evaluate\<close> (line 83) is outside the
  \<^verbatim>\<open>try\<close> statement, so when it raises, \<open>startRecording\<close> rejects with the browser
  launched and never closed.
\<close>

theorem browser_left_open:
  "result_of (startRecording evaluate_raises job0 []) = Inl (Raised ''Target closed'') \<and>
   events_of (startRecording evaluate_raises job0 []) =
     [Call (Launch launch_args) Returned, Call NewPage Returned,
      Call EvaluateBypass (Threw ''Target closed'')] \<and>
   invocations BrowserClose (events_of (startRecording evaluate_raises job0 [])) = 0"
  by (simp add: run_defs evaluate_raises_def)

section \<open>Locator and primitives\<close>

text \<open>
  Claim C5. When the page's query returns no match, \<open>findElementByXPath\<close> returns the
  explicit not-found value (\<open>None\<close>, for \<^verbatim>\<open>null\<close>) and raises nothing; when it returns
  at least one match, the result is the first of them in the order the page gave. The locator
  raises only when the page's query itself does, and does nothing but that one query.
\<close>

theorem locator_result:
  "(respond E h (XPath q) = None \<and> xpath_result E h q = []
      \<longrightarrow> result_of (findElementByXPath E q this h) = Inr None) \<and>
   (respond E h (XPath q) = None \<and> xpath_result E h q = x # xs
      \<longrightarrow> result_of (findElementByXPath E q this h) = Inr (Some x)) \<and>
   (respond E h (XPath q) = Some msg
      \<longrightarrow> result_of (findElementByXPath E q this h) = Inl (Raised msg)) \<and>
   events_of (findElementByXPath E q this h) =
     [Call (XPath q) (case respond E h (XPath q) of
                        None \<Rightarrow> Matched (xpath_result E h q) | Some msg \<Rightarrow> Threw msg)]"
  by (simp add: findElementByXPath_def bnd_def query_def ret_def result_of_def events_of_def Let_def
      split: option.splits)

theorem locator_result_witness:
  "result_of (findElementByXPath all_fine xpath_continue job0 []) = Inr None \<and>
   result_of (findElementByXPath all_fine xpath_join job0 []) = Inr (Some 7) \<and>
   result_of (findElementByXPath query_raises xpath_join job0 []) = Inl (Raised ''Protocol error'')"
proof -
  have absent: "respond all_fine [] (XPath xpath_continue) = None \<and>
      xpath_result all_fine [] xpath_continue = []"
    and present: "respond all_fine [] (XPath xpath_join) = None \<and>
      xpath_result all_fine [] xpath_join = [7, 8]"
    and raising: "respond query_raises [] (XPath xpath_join) = Some ''Protocol error''"
    by (simp_all add: all_fine_def query_raises_def scripted_def no_prompt_def xpath_continue_def
        xpath_name_def xpath_join_def)
  from absent present raising
    locator_result [where E = all_fine and h = "[]" and q = xpath_continue and this = job0]
    locator_result [where E = all_fine and h = "[]" and q = xpath_join and this = job0
      and x = 7 and xs = "[8]"]
    locator_result [where E = query_raises and h = "[]" and q = xpath_join and this = job0
      and msg = "''Protocol error''"]
  show ?thesis by simp
qed

text \<open>
  Claim C6. \<open>typeInElement\<close> and \<open>clickElement\<close> raise the element-missing error (an
  \<open>Error\<close> the program constructs itself) if and only if the element argument is absent;
  given an element they perform their action on it: one click, or a triple click followed,
  if the click returned, by the typing.
\<close>

theorem primitives_raise_iff_absent:
  "((\<exists>m. result_of (typeInElement E el str this h) = Inl (Error m)) \<longleftrightarrow> el = None) \<and>
   ((\<exists>m. result_of (clickElement E el this h) = Inl (Error m)) \<longleftrightarrow> el = None) \<and>
   result_of (typeInElement E None str this h) = Inl (Error ''Element not found for typing'') \<and>
   result_of (clickElement E None this h) = Inl (Error ''Element not found for clicking'') \<and>
   events_of (clickElement E (Some x) this h) = [Call (Click x 1) (answer (respond E h (Click x 1)))] \<and>
   events_of (typeInElement E (Some x) str this h) =
     (case respond E h (Click x 3) of
        Some msg \<Rightarrow> [Call (Click x 3) (Threw msg)]
      | None \<Rightarrow> [Call (Click x 3) Returned,
                 Call (TypeText x str)
                   (answer (respond E (h @ [Call (Click x 3) Returned]) (TypeText x str)))])"
  by (cases el)
    (simp_all add: typeInElement_def clickElement_def bnd_def call_def ret_def throw_def
      result_of_def events_of_def split: option.splits)

theorem primitives_raise_iff_absent_witness:
  "result_of (typeInElement all_fine None ''Meeting Bot'' job0 []) =
     Inl (Error ''Element not found for typing'') \<and>
   result_of (clickElement all_fine None job0 []) = Inl (Error ''Element not found for clicking'') \<and>
   result_of (typeInElement all_fine (Some 4) ''Meeting Bot'' job0 []) = Inr () \<and>
   result_of (clickElement all_fine (Some 7) job0 []) = Inr () \<and>
   events_of (clickElement all_fine (Some 7) job0 []) = [Call (Click 7 1) Returned] \<and>
   events_of (typeInElement all_fine (Some 4) ''Meeting Bot'' job0 []) =
     [Call (Click 4 3) Returned, Call (TypeText 4 ''Meeting Bot'') Returned]"
proof -
  have typed: "result_of (typeInElement all_fine (Some 4) ''Meeting Bot'' job0 []) = Inr ()"
    and clicked: "result_of (clickElement all_fine (Some 7) job0 []) = Inr ()"
    and quiet: "\<And>h a. respond all_fine h a = None"
    by (simp_all add: run_defs all_fine_def)
  from typed clicked
    primitives_raise_iff_absent [where E = all_fine and el = None and str = "''Meeting Bot''"
      and this = job0 and h = "[]" and x = 7]
    primitives_raise_iff_absent [where E = all_fine and el = "Some 4" and str = "''Meeting Bot''"
      and this = job0 and h = "[]" and x = 4]
  show ?thesis by (simp add: quiet)
qed

section \<open>Errors\<close>




text \<open>
  Claim C10. Every call of an interaction primitive in \<open>startRecording\<close> is guarded by a
  test that the element was found, so no execution raises or logs an element-missing error
  (an \<open>Error\<close>; what collaborators raise is \<open>Raised\<close>): not \<open>startRecording\<close>, and not
  \<open>main\<close> or the entry point around it.
\<close>

theorem element_missing_unreachable:
  "result_of (startRecording E this h) \<noteq> Inl (Error m) \<and>
   (Console msg \<in> set (events_of (startRecording E this h)) \<longrightarrow> reported msg \<noteq> Some (Error m)) \<and>
   fst (main E h) \<noteq> Inl (Error m) \<and>
   (Console msg \<in> set (snd (entry_point E run_directly h)) \<longrightarrow> reported msg \<noteq> Some (Error m))"
proof -
  have job: "result_of (startRecording E this h) \<noteq> Inl (Error m) \<and>
      (Console msg \<in> set (events_of (startRecording E this h)) \<longrightarrow> reported msg \<noteq> Some (Error m))"
    using startRecording_raises_no_error [of E this h]
    by (cases "startRecording E this h") (simp add: result_of_def events_of_def)
  have main: "fst (main E h) \<noteq> Inl (Error m) \<and>
      (Console msg \<in> set (snd (main E h)) \<longrightarrow> reported msg \<noteq> Some (Error m))"
    unfolding main_def GoogleMeetRecorder_new_def Let_def
    by (auto split: option.splits prod.splits sum.splits dest: startRecording_raises_no_error)
  have "Console msg \<in> set (snd (entry_point E run_directly h)) \<longrightarrow> reported msg \<noteq> Some (Error m)"
    using main unfolding entry_point_def
    by (cases "main E h") (auto split: sum.splits)
  with job main show ?thesis by simp
qed

theorem element_missing_unreachable_witness:
  "Console (ErrorDuringRecording (Raised ''Navigation timeout''))
     \<in> set (events_of (startRecording goto_raises job0 [])) \<and>
   Console (ErrorDuringRecording (Raised ''Navigation timeout''))
     \<in> set (snd (entry_point goto_raises True [])) \<and>
   reported (ErrorDuringRecording (Raised ''Navigation timeout''))
     \<noteq> Some (Error ''Element not found for clicking'') \<and>
   result_of (startRecording goto_raises job0 []) \<noteq> Inl (Error ''Element not found for clicking'')"
proof -
  have logged: "Console (ErrorDuringRecording (Raised ''Navigation timeout''))
      \<in> set (events_of (startRecording goto_raises job0 []))"
    by (simp add: run_defs goto_raises_def)
  have relayed: "Console (ErrorDuringRecording (Raised ''Navigation timeout''))
      \<in> set (snd (entry_point goto_raises True []))"
    by (simp add: entry_point_def main_def GoogleMeetRecorder_new_def run_defs goto_raises_def)
  from logged relayed
    element_missing_unreachable [where E = goto_raises and this = job0 and h = "[]"
      and m = "''Element not found for clicking''" and run_directly = True
      and msg = "ErrorDuringRecording (Raised ''Navigation timeout'')"]
  show ?thesis by simp
qed

section \<open>The object's fields\<close>

text \<open>
  Claim C9. No method assigns a field: \<open>startRecording\<close>, the locator and both primitives
  leave the object exactly as they found it, so every invocation of \<open>startRecording\<close> on
  the same object, also one after another, records to the same \<open>videoOutputPath\<close>.
\<close>

theorem fields_never_change:
  "object_of (startRecording E this h) = this \<and>
   object_of (findElementByXPath E q this h) = this \<and>
   object_of (typeInElement E el str this h) = this \<and>
   object_of (clickElement E el this h) = this \<and>
   (Call (RecorderStart p) out \<in> set (events_of (startRecording E this h))
      \<longrightarrow> p = videoOutputPath this) \<and>
   (Call (RecorderStart p') out'
      \<in> set (events_of (startRecording E (object_of (startRecording E this h)) h'))
      \<longrightarrow> p' = videoOutputPath this)"
proof -
  have path: "Call (RecorderStart p) out \<in> set (events_of (startRecording E this h))
      \<longrightarrow> p = videoOutputPath this" for p out this h
    using startRecording_run [of E this h]
    unfolding post_defs by (auto dest: nav_facts)
  have helpers: "object_of (findElementByXPath E q this h) = this \<and>
      object_of (typeInElement E el str this h) = this \<and>
      object_of (clickElement E el this h) = this"
    by (cases el)
      (simp_all add: findElementByXPath_def typeInElement_def clickElement_def bnd_def call_def
        query_def ret_def throw_def object_of_def Let_def split: option.splits)
  from path [of p out this h] path [of p' out' this h'] helpers startRecording_run [of E this h]
  show ?thesis by simp
qed

theorem fields_never_change_witness:
  "Call (RecorderStart (videoOutputPath job0)) Returned
     \<in> set (events_of (startRecording all_fine job0 [])) \<and>
   object_of (startRecording all_fine job0 []) = job0 \<and>
   Call (RecorderStart (videoOutputPath job0)) Returned
     \<in> set (events_of (startRecording all_fine (object_of (startRecording all_fine job0 []))
          (events_of (startRecording all_fine job0 []))))"
proof -
  have same: "object_of (startRecording all_fine job0 []) = job0"
    using fields_never_change [where E = all_fine and this = job0 and h = "[]"] by simp
  have "Call (RecorderStart (videoOutputPath job0)) Returned
      \<in> set (events_of (startRecording all_fine job0 h))" for h
    by (simp add: run_defs all_fine_def)
  with same show ?thesis by simp
qed

section \<open>The navigator steps\<close>

lemma raised_in_simps [simp]:
  "raised_in [] \<longleftrightarrow> False"
  "raised_in (e # es) \<longleftrightarrow> threw e \<or> raised_in es"
  "raised_in (xs @ ys) \<longleftrightarrow> raised_in xs \<or> raised_in ys"
  by (auto simp: raised_in_def)

lemma raised_in_iff: "raised_in es \<longleftrightarrow> (\<exists>a msg. Call a (Threw msg) \<in> set es)"
proof
  assume "raised_in es"
  then obtain e where "e \<in> set es" and "threw e" by (auto simp: raised_in_def)
  then show "\<exists>a msg. Call a (Threw msg) \<in> set es"
    by (cases e rule: threw.cases) auto
next
  assume "\<exists>a msg. Call a (Threw msg) \<in> set es"
  then show "raised_in es" by (force simp: raised_in_def)
qed

lemma tail_quiet:
  "tail_post this r ta \<Longrightarrow> raised_in ta \<or> (r = Inr () \<and> ta = recorded this)"
  by (auto simp: tail_post_def recorded_def Let_def)

lemma try_quiet:
  assumes "try_post this rt te"
  shows "raised_in te \<or> (rt = Inr () \<and> (\<exists>na. nav_shape this na \<and> te = na @ recorded this))"
  using assms unfolding try_post_def
proof (elim disjE exE conjE)
  fix msg
  assume "rt = Inl (Raised msg)" and "nav_post this rt te"
  then have "nav_post this (Inl (Raised msg) :: error + unit) te" by simp
  from nav_raised [OF this] have "raised_in te" unfolding raised_in_iff by blast
  then show ?thesis ..
next
  fix na ta
  assume "te = na @ ta" and "nav_shape this na" and "tail_post this rt ta"
  with tail_quiet [of this rt ta] show ?thesis by auto
qed

lemma guarded_quiet:
  assumes "guarded_post this r ge"
  shows "raised_in ge \<or>
    (r = Inr () \<and> (\<exists>na. nav_shape this na \<and>
       ge = na @ recorded this @ [Call BrowserClose Returned]))"
proof -
  from assms obtain rt te out where body: "try_post this rt te"
    and ge: "ge = te @ caught rt @ [Call BrowserClose out]"
    and close: "r = Inr () \<and> out = Returned \<or> (\<exists>msg. out = Threw msg)"
    unfolding guarded_post_def by blast
  from try_quiet [OF body] show ?thesis
  proof
    assume "raised_in te"
    with ge show ?thesis by simp
  next
    assume "rt = Inr () \<and> (\<exists>na. nav_shape this na \<and> te = na @ recorded this)"
    with ge close show ?thesis by auto
  qed
qed

lemma startRecording_quiet:
  assumes "start_post this r es"
  shows "raised_in es \<or>
    (r = Inr () \<and> (\<exists>na. nav_shape this na \<and>
       es = setup_ok @ na @ recorded this @ [Call BrowserClose Returned]))"
  using assms unfolding start_post_def
proof (elim disjE exE conjE)
  assume "setup_failed r es"
  then have "raised_in es" by (auto simp: setup_failed_def)
  then show ?thesis ..
next
  fix ge
  assume "es = setup_ok @ ge" and "guarded_post this r ge"
  with guarded_quiet [of this r ge] show ?thesis by auto
qed

text \<open>
  Claim C7. In every execution in which no call to a collaborator raised, whatever the three
  queries matched: each of the three navigator steps issues its query and then, if the query
  matched nothing, does nothing more (the step is skipped, no error is raised), and
  otherwise performs its action on the first match; the later steps, the recorder start, the
  wait, the recorder stop and the browser close follow in every case, and the job completes.
\<close>

theorem navigator_steps_optional:
  assumes quiet: "\<forall>a msg. Call a (Threw msg) \<notin> set (events_of (startRecording E this h))"
  shows "\<exists>c n j.
     result_of (startRecording E this h) = Inr () \<and>
     events_of (startRecording E this h) =
       [Call (Launch launch_args) Returned, Call NewPage Returned, Call EvaluateBypass Returned,
        Call (SetExtraHTTPHeaders ''Accept-Language'' ''en-US,en;q=0.9'') Returned,
        Call (NewRecorder RecordingConfig) Returned, Call (Goto (meetUrl this) 60000) Returned,
        Call EvaluateOverride Returned, Call (SetViewport 1920 1080) Returned] @
       step_events xpath_continue c (\<lambda>el. [Call (Click el 1) Returned]) @
       step_events xpath_name n
         (\<lambda>el. [Call (Click el 3) Returned, Call (TypeText el ''Meeting Bot'') Returned]) @
       step_events xpath_join j (\<lambda>el. [Call (Click el 1) Returned]) @
       [Call (RecorderStart (videoOutputPath this)) Returned,
        Console (RecordingStarted (videoOutputPath this)),
        Call (WaitForTimeout (recordingDuration this)) Returned,
        Console StoppingRecording, Call RecorderStop Returned, Console RecordingSaved,
        Call BrowserClose Returned]"
proof -
  let ?r = "result_of (startRecording E this h)" and ?es = "events_of (startRecording E this h)"
  from startRecording_run [of E this h] have "start_post this ?r ?es" by simp
  from startRecording_quiet [OF this] quiet
  obtain na where nav: "nav_shape this na" and ok: "?r = Inr ()"
    and trace: "?es = setup_ok @ na @ recorded this @ [Call BrowserClose Returned]"
    unfolding raised_in_iff by blast
  from nav obtain c n j where "na =
      [Call (NewRecorder RecordingConfig) Returned, Call (Goto (meetUrl this) 60000) Returned,
       Call EvaluateOverride Returned, Call (SetViewport 1920 1080) Returned] @
      step_events xpath_continue c (\<lambda>el. [Call (Click el 1) Returned]) @
      step_events xpath_name n
        (\<lambda>el. [Call (Click el 3) Returned, Call (TypeText el ''Meeting Bot'') Returned]) @
      step_events xpath_join j (\<lambda>el. [Call (Click el 1) Returned])"
    unfolding nav_shape_def by blast
  with ok trace show ?thesis
    by (intro exI [of _ c] exI [of _ n] exI [of _ j]) (simp add: setup_ok_def recorded_def)
qed

theorem navigator_steps_optional_witness:
  "result_of (startRecording all_fine job0 []) = Inr () \<and>
   events_of (startRecording all_fine job0 []) =
     [Call (Launch launch_args) Returned, Call NewPage Returned, Call EvaluateBypass Returned,
      Call (SetExtraHTTPHeaders ''Accept-Language'' ''en-US,en;q=0.9'') Returned,
      Call (NewRecorder RecordingConfig) Returned, Call (Goto (meetUrl job0) 60000) Returned,
      Call EvaluateOverride Returned, Call (SetViewport 1920 1080) Returned,
      Call (XPath xpath_continue) (Matched []),
      Call (XPath xpath_name) (Matched [4]),
      Call (Click 4 3) Returned, Call (TypeText 4 ''Meeting Bot'') Returned,
      Call (XPath xpath_join) (Matched [7, 8]),
      Call (Click 7 1) Returned,
      Call (RecorderStart (videoOutputPath job0)) Returned,
      Console (RecordingStarted (videoOutputPath job0)),
      Call (WaitForTimeout (recordingDuration job0)) Returned,
      Console StoppingRecording, Call RecorderStop Returned, Console RecordingSaved,
      Call BrowserClose Returned]"
proof -
  have quiet: "\<forall>a msg. Call a (Threw msg) \<notin> set (events_of (startRecording all_fine job0 []))"
    by (simp add: run_defs all_fine_def)
  from navigator_steps_optional [OF quiet]
  obtain c n j where ok: "result_of (startRecording all_fine job0 []) = Inr ()"
    and trace: "events_of (startRecording all_fine job0 []) =
      [Call (Launch launch_args) Returned, Call NewPage Returned, Call EvaluateBypass Returned,
       Call (SetExtraHTTPHeaders ''Accept-Language'' ''en-US,en;q=0.9'') Returned,
       Call (NewRecorder RecordingConfig) Returned, Call (Goto (meetUrl job0) 60000) Returned,
       Call EvaluateOverride Returned, Call (SetViewport 1920 1080) Returned] @
      step_events xpath_continue c (\<lambda>el. [Call (Click el 1) Returned]) @
      step_events xpath_name n
        (\<lambda>el. [Call (Click el 3) Returned, Call (TypeText el ''Meeting Bot'') Returned]) @
      step_events xpath_join j (\<lambda>el. [Call (Click el 1) Returned]) @
      [Call (RecorderStart (videoOutputPath job0)) Returned,
       Console (RecordingStarted (videoOutputPath job0)),
       Call (WaitForTimeout (recordingDuration job0)) Returned,
       Console StoppingRecording, Call RecorderStop Returned, Console RecordingSaved,
       Call BrowserClose Returned]"
    by blast
  have "events_of (startRecording all_fine job0 []) =
     [Call (Launch launch_args) Returned, Call NewPage Returned, Call EvaluateBypass Returned,
      Call (SetExtraHTTPHeaders ''Accept-Language'' ''en-US,en;q=0.9'') Returned,
      Call (NewRecorder RecordingConfig) Returned, Call (Goto (meetUrl job0) 60000) Returned,
      Call EvaluateOverride Returned, Call (SetViewport 1920 1080) Returned,
      Call (XPath xpath_continue) (Matched []),
      Call (XPath xpath_name) (Matched [4]),
      Call (Click 4 3) Returned, Call (TypeText 4 ''Meeting Bot'') Returned,
      Call (XPath xpath_join) (Matched [7, 8]),
      Call (Click 7 1) Returned,
      Call (RecorderStart (videoOutputPath job0)) Returned,
      Console (RecordingStarted (videoOutputPath job0)),
      Call (WaitForTimeout (recordingDuration job0)) Returned,
      Console StoppingRecording, Call RecorderStop Returned, Console RecordingSaved,
      Call BrowserClose Returned]"
    by (simp add: run_defs all_fine_def launch_args_def RecordingConfig_def)
  with ok show ?thesis by simp
qed

section \<open>The output path\<close>

subsection \<open>Splitting, joining and normalising\<close>

lemma split_sep_nonempty [simp]: "split_sep s \<noteq> []"
  by (induction s) (auto split: list.splits)

lemma split_sep_append: "split_sep (a @ CHR ''/'' # b) = split_sep a @ split_sep b"
  by (induction a) (auto split: list.splits)

lemma split_sep_plain: "CHR ''/'' \<notin> set s \<Longrightarrow> split_sep s = [s]"
  by (induction s) auto

lemma join_sep_snoc: "join_sep (xs @ [n]) = (if xs = [] then n else join_sep xs @ CHR ''/'' # n)"
  by (induction xs rule: join_sep.induct) auto

lemma join_sep_Cons: "ss \<noteq> [] \<Longrightarrow> join_sep (s # ss) = s @ CHR ''/'' # join_sep ss"
  by (cases ss) auto

lemma join_split: "join_sep (split_sep s) = s"
proof (induction s)
  case Nil
  show ?case by simp
next
  case (Cons c cs)
  show ?case
  proof (cases "c = CHR ''/''")
    case True
    with Cons show ?thesis by (simp add: join_sep_Cons)
  next
    case False
    obtain s ss where split: "split_sep cs = s # ss" by (cases "split_sep cs") auto
    with Cons have "cs = join_sep (s # ss)" by simp
    with False split show ?thesis by (cases ss) auto
  qed
qed

lemma normalizeString_plain:
  "list_all plain_segment ys \<Longrightarrow>
   normalizeString up res (xs @ ys) = normalizeString up res xs @ ys"
proof (induction xs arbitrary: res)
  case Nil
  then show ?case
    by (induction ys arbitrary: res) (auto simp: plain_segment_def)
next
  case (Cons x xs)
  then show ?case by (cases up) simp_all
qed

subsection \<open>The decimal rendering is injective\<close>

lemma of_char_digit: "d < 10 \<Longrightarrow> of_char (digit_char d) = (48 + d :: nat)"
  by (simp add: digit_char_def)

lemma of_char_slash: "of_char (CHR ''/'') = (47 :: nat)"
  by simp

lemma of_char_minus: "of_char (CHR ''-'') = (45 :: nat)"
  by simp

lemma digit_char_neq:
  assumes "d < 10"
  shows "digit_char d \<noteq> CHR ''/''" and "digit_char d \<noteq> CHR ''-''"
proof -
  from assms have code: "of_char (digit_char d) = (48 + d :: nat)" by (rule of_char_digit)
  show "digit_char d \<noteq> CHR ''/''"
  proof
    assume "digit_char d = CHR ''/''"
    then have "of_char (digit_char d) = (47 :: nat)" by (simp only: of_char_slash)
    with code have "48 + d = 47" by (simp only:)
    then show False by arith
  qed
  show "digit_char d \<noteq> CHR ''-''"
  proof
    assume "digit_char d = CHR ''-''"
    then have "of_char (digit_char d) = (45 :: nat)" by (simp only: of_char_minus)
    with code have "48 + d = 45" by (simp only:)
    then show False by arith
  qed
qed

lemma digit_char_inject:
  assumes "d < 10" and "d' < 10" and "digit_char d = digit_char d'"
  shows "d = d'"
proof -
  from assms(1) have "of_char (digit_char d) = (48 + d :: nat)" by (rule of_char_digit)
  moreover from assms(2) have "of_char (digit_char d') = (48 + d' :: nat)" by (rule of_char_digit)
  ultimately have "48 + d = 48 + d'" using assms(3) by (simp only:)
  then show ?thesis by arith
qed

lemma show_nat_small: "n < 10 \<Longrightarrow> show_nat n = [digit_char n]"
  by (subst show_nat.simps) simp

lemma show_nat_large:
  "\<not> n < 10 \<Longrightarrow> show_nat n = show_nat (n div 10) @ [digit_char (n mod 10)]"
  by (subst show_nat.simps) simp

lemma show_nat_nonempty [simp]: "show_nat n \<noteq> []" "[] \<noteq> show_nat n"
  by (cases "n < 10"; simp add: show_nat_small show_nat_large)+

lemma show_nat_chars: "c \<in> set (show_nat n) \<Longrightarrow> c \<noteq> CHR ''/'' \<and> c \<noteq> CHR ''-''"
proof (induction n rule: show_nat.induct)
  case (1 n)
  show ?case
  proof (cases "n < 10")
    case True
    with "1.prems" show ?thesis
      by (auto simp: show_nat_small digit_char_neq)
  next
    case False
    with "1.prems" have "c \<in> set (show_nat (n div 10)) \<or> c = digit_char (n mod 10)"
      by (auto simp: show_nat_large)
    with False "1.IH" show ?thesis
      by (auto simp: digit_char_neq)
  qed
qed

lemma show_nat_length:
  "n < 10 \<Longrightarrow> length (show_nat n) = 1"
  "\<not> n < 10 \<Longrightarrow> length (show_nat n) \<ge> 2"
proof -
  show "n < 10 \<Longrightarrow> length (show_nat n) = 1" by (simp only: show_nat_small list.size One_nat_def)
  assume large: "\<not> n < 10"
  have "show_nat (n div 10) \<noteq> []" by (rule show_nat_nonempty)
  then have "length (show_nat (n div 10) @ [digit_char (n mod 10)]) \<ge> 2"
    by (cases "show_nat (n div 10)") simp_all
  then show "length (show_nat n) \<ge> 2" by (simp only: show_nat_large [OF large])
qed

lemma show_nat_inject: "show_nat n = show_nat m \<Longrightarrow> n = m"
proof (induction n arbitrary: m rule: show_nat.induct)
  case (1 n)
  note IH = "1.IH"
  from "1.prems" have len: "length (show_nat n) = length (show_nat m)" by (simp only:)
  show ?case
  proof (cases "n < 10")
    case small: True
    show ?thesis
    proof (cases "m < 10")
      case True
      from "1.prems" have "[digit_char n] = [digit_char m]"
        by (simp only: show_nat_small [OF small] show_nat_small [OF True])
      then have "digit_char n = digit_char m" by (simp only: list.inject)
      with small True show ?thesis by (rule digit_char_inject)
    next
      case False
      from len show_nat_length(1) [OF small] show_nat_length(2) [OF False]
      have False by simp
      then show ?thesis ..
    qed
  next
    case large: False
    show ?thesis
    proof (cases "m < 10")
      case True
      from len show_nat_length(2) [OF large] show_nat_length(1) [OF True]
      have False by simp
      then show ?thesis ..
    next
      case False
      from "1.prems"
      have "show_nat (n div 10) @ [digit_char (n mod 10)] =
          show_nat (m div 10) @ [digit_char (m mod 10)]"
        by (simp only: show_nat_large [OF large] show_nat_large [OF False])
      then have init_eq: "show_nat (n div 10) = show_nat (m div 10)"
        and last_eq: "digit_char (n mod 10) = digit_char (m mod 10)"
        by (simp_all only: append1_eq_conv)
      from large init_eq have "n div 10 = m div 10" by (rule IH)
      moreover have "n mod 10 = m mod 10"
        by (rule digit_char_inject [OF _ _ last_eq]) simp_all
      ultimately have "n div 10 * 10 + n mod 10 = m div 10 * 10 + m mod 10"
        by (simp only:)
      then show ?thesis by (simp only: div_mult_mod_eq)
    qed
  qed
qed

lemma show_int_inject: "show_int i = show_int j \<Longrightarrow> i = j"
proof -
  assume eq: "show_int i = show_int j"
  have no_minus: "hd (show_nat n) \<noteq> CHR ''-''" for n
    using show_nat_chars [of "hd (show_nat n)" n] by simp
  consider "i < 0" "j < 0" | "i < 0" "\<not> j < 0" | "\<not> i < 0" "j < 0" | "\<not> i < 0" "\<not> j < 0"
    by blast
  then show ?thesis
  proof cases
    case 1
    with eq have "show_nat (nat (- i)) = show_nat (nat (- j))" by (simp add: show_int_def)
    then have "nat (- i) = nat (- j)" by (rule show_nat_inject)
    with 1 show ?thesis by simp
  next
    case 2
    with eq have "CHR ''-'' # show_nat (nat (- i)) = show_nat (nat j)" by (simp add: show_int_def)
    then have "hd (show_nat (nat j)) = CHR ''-''" by (metis list.sel(1))
    with no_minus show ?thesis by simp
  next
    case 3
    with eq have "show_nat (nat i) = CHR ''-'' # show_nat (nat (- j))" by (simp add: show_int_def)
    then have "hd (show_nat (nat i)) = CHR ''-''" by simp
    with no_minus show ?thesis by simp
  next
    case 4
    with eq have "show_nat (nat i) = show_nat (nat j)" by (simp add: show_int_def)
    then have "nat i = nat j" by (rule show_nat_inject)
    with 4 show ?thesis by simp
  qed
qed

lemma recording_name_inject: "recording_name t = recording_name t' \<Longrightarrow> t = t'"
proof -
  assume "recording_name t = recording_name t'"
  then have "show_int t = show_int t'" by (simp add: recording_name_def)
  then show ?thesis by (rule show_int_inject)
qed

lemma recording_name_plain: "plain_segment (recording_name t)"
proof -
  have "CHR ''/'' \<notin> set (show_int t)"
    using show_nat_chars [of "CHR ''/''"] by (auto simp: show_int_def)
  then show ?thesis by (simp add: plain_segment_def recording_name_def)
qed

subsection \<open>What \<^verbatim>\<open>path.join\<close> returns\<close>

lemma join_sep_args: "join_sep (d # ns) = d @ concat (map ((#) CHR ''/'') ns)"
  by (induction ns arbitrary: d) (simp_all add: join_sep_Cons)

lemma split_sep_args:
  "list_all plain_segment ns \<Longrightarrow>
   split_sep (d @ concat (map ((#) CHR ''/'') ns)) = split_sep d @ ns"
proof (induction ns arbitrary: d)
  case Nil
  show ?case by simp
next
  case (Cons n ns)
  from Cons.prems have "list_all plain_segment ns" by simp
  then have "split_sep ((d @ CHR ''/'' # n) @ concat (map ((#) CHR ''/'') ns)) =
      split_sep (d @ CHR ''/'' # n) @ ns"
    by (rule Cons.IH)
  moreover from Cons.prems have "split_sep n = [n]"
    by (simp add: plain_segment_def split_sep_plain)
  ultimately show ?case by (simp add: split_sep_append)
qed

lemma join_sep_append:
  "xs \<noteq> [] \<Longrightarrow> join_sep (xs @ ys) = join_sep xs @ concat (map ((#) CHR ''/'') ys)"
  by (induction xs rule: join_sep.induct) (simp_all add: join_sep_args)

lemma plain_last: "plain_segment n \<Longrightarrow> last (pre @ n) \<noteq> CHR ''/''"
  by (cases n rule: rev_cases) (auto simp: plain_segment_def)

text \<open>Joining a directory with a plain file name keeps the file name as the last segment.\<close>

lemma path_join_basename:
  assumes n: "plain_segment n"
  shows "last (split_sep (path_join [d, n])) = n"
proof -
  define joined where "joined = (if d = [] then n else d @ CHR ''/'' # n)"
  define segs where "segs = (if d = [] then [] else split_sep d)"
  from n have n_ne: "n \<noteq> []" and n_split: "split_sep n = [n]"
    by (simp_all add: plain_segment_def split_sep_plain)
  have joined_ne: "joined \<noteq> []" using n_ne by (simp add: joined_def)
  have path: "path_join [d, n] = normalize joined"
    using n_ne joined_ne by (simp add: path_join_def joined_def)
  have split: "split_sep joined = segs @ [n]"
    using n_split by (simp add: joined_def segs_def split_sep_append)
  have no_trail: "last joined \<noteq> CHR ''/''"
    using plain_last [OF n, of "d @ ''/''"] plain_last [OF n, of "[]"] by (simp add: joined_def)
  define kept where "kept = normalizeString (hd joined \<noteq> CHR ''/'') [] segs"
  have norm: "normalizeString (hd joined \<noteq> CHR ''/'') [] (split_sep joined) = kept @ [n]"
    using n by (simp add: split kept_def normalizeString_plain)
  have "normalize joined = (if hd joined = CHR ''/'' then ''/'' else []) @ join_sep (kept @ [n])"
    using joined_ne no_trail n_ne by (simp add: normalize_def norm Let_def join_sep_snoc)
  also have "\<dots> = ((if hd joined = CHR ''/'' then ''/'' else []) @
      (if kept = [] then [] else join_sep kept @ ''/'')) @ n"
    by (simp add: join_sep_snoc)
  finally have shape: "path_join [d, n] = ((if hd joined = CHR ''/'' then ''/'' else []) @
      (if kept = [] then [] else join_sep kept @ ''/'')) @ n"
    by (simp only: path)
  show ?thesis
  proof (cases "kept = []")
    case True
    then show ?thesis
      by (cases "hd joined = CHR ''/''")
        (simp_all add: shape n_split split_sep_append [of "[]" n, simplified])
  next
    case False
    then have "path_join [d, n] =
        ((if hd joined = CHR ''/'' then ''/'' else []) @ join_sep kept) @ CHR ''/'' # n"
      by (simp add: shape)
    then show ?thesis by (simp only: split_sep_append n_split) simp
  qed
qed

lemma plain_dir_split:
  assumes "plain_dir d"
  obtains segs where "list_all plain_segment segs" and "segs \<noteq> []"
    and "split_sep d = (if hd d = CHR ''/'' then [] # segs else segs)"
    and "d = (if hd d = CHR ''/'' then ''/'' else []) @ join_sep segs"
proof -
  define rest where "rest = (if hd d = CHR ''/'' then tl d else d)"
  from assms have d: "d \<noteq> []" and plain: "list_all plain_segment (split_sep rest)"
    by (simp_all add: plain_dir_def rest_def)
  from d have whole: "d = (if hd d = CHR ''/'' then ''/'' else []) @ rest"
    by (cases d) (simp_all add: rest_def)
  have "split_sep d = (if hd d = CHR ''/'' then [] # split_sep rest else split_sep rest)"
    by (subst whole) simp
  moreover have "d = (if hd d = CHR ''/'' then ''/'' else []) @ join_sep (split_sep rest)"
    using whole by (simp only: join_split)
  ultimately show thesis using plain by (intro that [of "split_sep rest"]) simp_all
qed

text \<open>Joining plain segments onto a directory in normal form only appends them.\<close>

lemma path_join_plain:
  assumes d: "plain_dir d" and ns: "list_all plain_segment ns" and ne: "ns \<noteq> []"
  shows "path_join (d # ns) = d @ concat (map ((#) CHR ''/'') ns)"
    and "plain_dir (d @ concat (map ((#) CHR ''/'') ns))"
proof -
  let ?tail = "concat (map ((#) CHR ''/'') ns)"
  let ?lead = "if hd d = CHR ''/'' then ''/'' else []"
  from d obtain segs where segs: "list_all plain_segment segs" "segs \<noteq> []"
    and split_d: "split_sep d = (if hd d = CHR ''/'' then [] # segs else segs)"
    and whole: "d = ?lead @ join_sep segs"
    by (rule plain_dir_split)
  from d have d_ne: "d \<noteq> []" by (simp add: plain_dir_def)
  from ns have args: "filter (\<lambda>arg. arg \<noteq> []) ns = ns"
    by (induction ns) (simp_all add: plain_segment_def)
  have path: "path_join (d # ns) = normalize (d @ ?tail)"
    using d_ne by (simp add: path_join_def args join_sep_args)
  have hd_joined: "hd (d @ ?tail) = hd d" using d_ne by simp
  obtain front n where last_arg: "ns = front @ [n]" using ne by (cases ns rule: rev_cases) auto
  with ns have "plain_segment n" by simp
  then have no_trail: "last (d @ ?tail) \<noteq> CHR ''/''"
    using plain_last [of n "d @ concat (map ((#) CHR ''/'') front) @ ''/''"]
    by (simp add: last_arg)
  have kept: "normalizeString up [] (split_sep (d @ ?tail)) = segs @ ns" for up
    using normalizeString_plain [OF segs(1), of up "[]" "[]"]
    by (simp add: split_sep_args [OF ns] split_d normalizeString_plain [OF ns])
  have joined: "join_sep (segs @ ns) = join_sep segs @ ?tail"
    using segs(2) by (rule join_sep_append)
  have "?tail \<noteq> []" using ne by (cases ns) simp_all
  then have "join_sep (segs @ ns) \<noteq> []" by (simp add: joined)
  then have "normalize (d @ ?tail) = ?lead @ join_sep segs @ ?tail"
    using d_ne no_trail by (simp add: normalize_def kept hd_joined joined Let_def)
  with whole path show "path_join (d # ns) = d @ ?tail" by simp
  have "split_sep (tl d @ ?tail) = split_sep (tl d) @ ns"
    and "split_sep (d @ ?tail) = split_sep d @ ns"
    by (rule split_sep_args [OF ns])+
  moreover have "tl (d @ ?tail) = tl d @ ?tail" using d_ne by simp
  ultimately show "plain_dir (d @ ?tail)"
    using d ns d_ne by (cases "hd d = CHR ''/''") (simp_all add: plain_dir_def hd_joined)
qed

subsection \<open>The constructor\<close>

lemma digit_charI: "of_char c = (48 + d :: nat) \<Longrightarrow> digit_char d = c"
proof -
  assume "of_char c = (48 + d :: nat)"
  then have "char_of (48 + d) = char_of (of_char c :: nat)" by (simp only:)
  then show ?thesis by (simp only: digit_char_def char_of_char)
qed

lemma digit_chars:
  "digit_char 0 = CHR ''0''" "digit_char 1 = CHR ''1''" "digit_char 2 = CHR ''2''"
  "digit_char 3 = CHR ''3''" "digit_char 4 = CHR ''4''" "digit_char 5 = CHR ''5''"
  "digit_char 6 = CHR ''6''" "digit_char 7 = CHR ''7''" "digit_char 8 = CHR ''8''"
  "digit_char 9 = CHR ''9''" "digit_char (Suc 0) = CHR ''1''"
  by (rule digit_charI, simp)+

lemma sample_names:
  "recording_name 1700000000001 = ''meet_recording_1700000000001.mp4''"
  "recording_name 1700000000002 = ''meet_recording_1700000000002.mp4''"
  by (simp_all add: recording_name_def show_int_def show_nat.simps digit_chars)

lemma sample_paths:
  "path_join [''/home/bot'', ''report'', ''video''] = ''/home/bot/report/video''"
  "path_join [''/home/bot/report/video'', ''meet_recording_1700000000001.mp4''] =
     ''/home/bot/report/video/meet_recording_1700000000001.mp4''"
  "path_join [''out'', ''meet_recording_1700000000002.mp4''] =
     ''out/meet_recording_1700000000002.mp4''"
  by (simp_all add: path_join_def normalize_def Let_def)

text \<open>
  Claim C8. A constructed job has the given URL, the given duration or 30000, and the path
  \<^verbatim>\<open>path.join\<close> makes of the directory (by default \<^verbatim>\<open>report/video\<close> under the working
  directory) and \<^verbatim>\<open>meet_recording_<timestamp>.mp4\<close>. The file name is always the last
  segment of that path, and for a directory in normal form the path is literally
  \<^verbatim>\<open>directory/meet_recording_<timestamp>.mp4\<close>. Two jobs constructed at different
  timestamps have different paths, whatever their directories.
\<close>

theorem output_path:
  assumes "GoogleMeetRecorder_new E url duration videoDir h = (Inr job, es)"
  shows "meetUrl job = url \<and>
     recordingDuration job = (case duration of None \<Rightarrow> 30000 | Some d \<Rightarrow> d) \<and>
     videoOutputPath job =
       path_join [case videoDir of
                    None \<Rightarrow> path_join [cwd E, ''report'', ''video''] | Some dir \<Rightarrow> dir,
                  recording_name (date_now E (h @ es))] \<and>
     last (split_sep (videoOutputPath job)) = recording_name (date_now E (h @ es)) \<and>
     (videoDir = Some dir \<and> plain_dir dir \<longrightarrow>
        videoOutputPath job = dir @ ''/'' @ recording_name (date_now E (h @ es))) \<and>
     (videoDir = None \<and> plain_dir (cwd E) \<longrightarrow>
        videoOutputPath job =
          cwd E @ ''/report/video/'' @ recording_name (date_now E (h @ es))) \<and>
     (GoogleMeetRecorder_new E url' duration' videoDir' h' = (Inr job', es') \<and>
      date_now E (h' @ es') \<noteq> date_now E (h @ es) \<longrightarrow>
        videoOutputPath job' \<noteq> videoOutputPath job)"
proof -
  define videoDir_of where "videoDir_of v =
      (case v of None \<Rightarrow> path_join [cwd E, ''report'', ''video''] | Some dir \<Rightarrow> dir)" for v
  have made: "videoOutputPath j = path_join [videoDir_of v, recording_name (date_now E (k @ evs))] \<and>
      meetUrl j = u \<and> recordingDuration j = (case d of None \<Rightarrow> 30000 | Some d \<Rightarrow> d)"
    if "GoogleMeetRecorder_new E u d v k = (Inr j, evs)" for u d v k j evs
    using that unfolding GoogleMeetRecorder_new_def videoDir_of_def Let_def
    by (auto split: option.splits)
  note name = recording_name_plain
  from made [OF assms] have path:
    "videoOutputPath job = path_join [videoDir_of videoDir, recording_name (date_now E (h @ es))]"
    and fields: "meetUrl job = url"
      "recordingDuration job = (case duration of None \<Rightarrow> 30000 | Some d \<Rightarrow> d)"
    by simp_all
  have base: "last (split_sep (videoOutputPath job)) = recording_name (date_now E (h @ es))"
    by (simp only: path path_join_basename [OF name])
  have given: "videoOutputPath job = dir @ ''/'' @ recording_name (date_now E (h @ es))"
    if "videoDir = Some dir" and "plain_dir dir"
    using that path_join_plain(1) [of dir "[recording_name (date_now E (h @ es))]"] name
    by (simp add: path videoDir_of_def)
  have default: "videoOutputPath job =
      cwd E @ ''/report/video/'' @ recording_name (date_now E (h @ es))"
    if "videoDir = None" and cwd: "plain_dir (cwd E)"
  proof -
    have segs: "list_all plain_segment [''report'', ''video'']"
      by (simp add: plain_segment_def)
    from path_join_plain [OF cwd segs]
    have dir: "path_join [cwd E, ''report'', ''video''] = cwd E @ ''/report/video''"
      and plain: "plain_dir (cwd E @ ''/report/video'')"
      by simp_all
    from path_join_plain(1) [OF plain, of "[recording_name (date_now E (h @ es))]"] name that
    show ?thesis by (simp add: path videoDir_of_def dir)
  qed
  have distinct: "videoOutputPath job' \<noteq> videoOutputPath job"
    if other: "GoogleMeetRecorder_new E url' duration' videoDir' h' = (Inr job', es')"
      and later: "date_now E (h' @ es') \<noteq> date_now E (h @ es)"
  proof
    assume same: "videoOutputPath job' = videoOutputPath job"
    from made [OF other] have "last (split_sep (videoOutputPath job')) =
        recording_name (date_now E (h' @ es'))"
      by (simp only: path_join_basename [OF name])
    with same base have "recording_name (date_now E (h' @ es')) =
        recording_name (date_now E (h @ es))"
      by (simp only:)
    then have "date_now E (h' @ es') = date_now E (h @ es)" by (rule recording_name_inject)
    with later show False by simp
  qed
  from fields path base given default distinct show ?thesis
    by (simp add: videoDir_of_def)
qed

theorem output_path_witness:
  "GoogleMeetRecorder_new all_fine (meetUrl job0) None None [] =
     (Inr job0, [Call (MkdirSync ''/home/bot/report/video'') Returned]) \<and>
   recordingDuration job0 = 30000 \<and>
   plain_dir (cwd all_fine) \<and>
   videoOutputPath job0 = cwd all_fine @ ''/report/video/'' @ recording_name 1700000000001 \<and>
   videoOutputPath job0 = ''/home/bot/report/video/meet_recording_1700000000001.mp4'' \<and>
   GoogleMeetRecorder_new all_fine ''u'' (Some 5000) (Some ''out'') [Console StoppingRecording] =
     (Inr job1, [Call (MkdirSync ''out'') Returned]) \<and>
   plain_dir ''out'' \<and>
   videoOutputPath job1 = ''out'' @ ''/'' @ recording_name 1700000000002 \<and>
   videoOutputPath job1 \<noteq> videoOutputPath job0"
proof -
  have first: "GoogleMeetRecorder_new all_fine (meetUrl job0) None None [] =
      (Inr job0, [Call (MkdirSync ''/home/bot/report/video'') Returned])"
    by (simp add: GoogleMeetRecorder_new_def all_fine_def scripted_def job0_def sample_names
        sample_paths)
  have second: "GoogleMeetRecorder_new all_fine ''u'' (Some 5000) (Some ''out'')
      [Console StoppingRecording] = (Inr job1, [Call (MkdirSync ''out'') Returned])"
    by (simp add: GoogleMeetRecorder_new_def all_fine_def scripted_def job1_def sample_names
        sample_paths)
  have home: "plain_dir (cwd all_fine)" and out: "plain_dir ''out''"
    by (simp_all add: all_fine_def scripted_def plain_dir_def plain_segment_def)
  have clock: "date_now all_fine [Call (MkdirSync ''/home/bot/report/video'') Returned] =
      1700000000001"
    "date_now all_fine [Console StoppingRecording, Call (MkdirSync ''out'') Returned] =
      1700000000002"
    by (simp_all add: all_fine_def scripted_def)
  note job0_facts = output_path [OF first, where url' = "''u''" and duration' = "Some 5000"
      and videoDir' = "Some ''out''" and h' = "[Console StoppingRecording]" and job' = job1
      and es' = "[Call (MkdirSync ''out'') Returned]"]
  note job1_facts = output_path [OF second, where dir = "''out''"]
  have clocks: "date_now all_fine ([Console StoppingRecording] @ [Call (MkdirSync ''out'') Returned])
      \<noteq> date_now all_fine ([] @ [Call (MkdirSync ''/home/bot/report/video'') Returned])"
    by (simp add: clock)
  from job0_facts home have "videoOutputPath job0 = cwd all_fine @ ''/report/video/'' @
      recording_name (date_now all_fine ([] @ [Call (MkdirSync ''/home/bot/report/video'') Returned]))"
    by blast
  then have by_default:
    "videoOutputPath job0 = cwd all_fine @ ''/report/video/'' @ recording_name 1700000000001"
    by (simp only: append_Nil clock)
  from job0_facts second clocks have distinct: "videoOutputPath job1 \<noteq> videoOutputPath job0"
    by blast
  from job1_facts out have "videoOutputPath job1 = ''out'' @ ''/'' @
      recording_name (date_now all_fine
        ([Console StoppingRecording] @ [Call (MkdirSync ''out'') Returned]))"
    by blast
  then have given: "videoOutputPath job1 = ''out'' @ ''/'' @ recording_name 1700000000002"
    by (simp only: append.simps clock)
  have fields: "recordingDuration job0 = 30000"
    "videoOutputPath job0 = ''/home/bot/report/video/meet_recording_1700000000001.mp4''"
    by (simp_all add: job0_def)
  show ?thesis
    by (intro conjI) (rule first second home out by_default distinct given fields)+
qed

end
